theory Spec2Isabelle
  imports Main
begin

section \<open>Data model of the workspace core\<close>

text \<open>
  Paths are the strings the source compares (\<^verbatim>\<open>fsPath\<close>). A \<^verbatim>\<open>vscode.Uri\<close> is
  reduced to the two properties the source reads.
\<close>

record Uri =
  scheme :: string
  fsPath :: string

record WorkspaceFolder =
  wfUri :: string
  wfName :: string
  wfIndex :: nat

text \<open>
  \<^verbatim>\<open>vscode.TaskGroup\<close>: an id and the optional default mark. The source compares a
  group with the host's constant \<^verbatim>\<open>TaskGroup.Build\<close> by reference, so a group carries
  the number of its object (\<open>groupRef\<close>); the constant is object \<open>0\<close>. A group object
  of its own, such as a build group marked default, is another object with the same id.
\<close>

record TaskGroup =
  groupRef :: nat
  groupId :: string
  isDefault :: "bool option"

definition TaskGroup_Build :: TaskGroup where
  "TaskGroup_Build = \<lparr>groupRef = 0, groupId = ''build'', isDefault = None\<rparr>"

text \<open>
  \<^verbatim>\<open>task.execution\<close> is optional in the host's declaration; a process or shell
  execution carries optional options with an optional \<^verbatim>\<open>cwd\<close>, a custom execution
  has no options. Of a task, the properties the lookup and the listing read or set are
  kept. A workspace folder is compared by reference in the source; its \<open>wfIndex\<close>, the
  host's ordinal of the folder, tells two folders apart.
\<close>

datatype Execution =
    ProcessExecution "string option option"
  | ShellExecution "string option option"
  | CustomExecution

datatype TaskScope = ScopeGlobal | ScopeWorkspace | ScopeFolder WorkspaceFolder

record Task =
  definitionType :: string
  definitionArgs :: "string list"
  taskScope :: TaskScope
  taskName :: string
  taskSource :: string
  execution :: "Execution option"
  taskGroup :: "TaskGroup option"
  detail :: "string option"

text \<open>
  \<^verbatim>\<open>FolderContext\<close>: the fields the core reads. The source compares folder contexts by
  reference; the records carry the allocation number \<open>ident\<close> handed out at creation,
  so contexts made by different calls differ. \<open>folder\<close> is \<^verbatim>\<open>folder.fsPath\<close>,
  \<open>foundPackage\<close> and \<open>executableProducts\<close> are those of \<^verbatim>\<open>swiftPackage\<close>,
  \<open>hasTestTargets\<close> is \<^verbatim>\<open>swiftPackage.getTargets("test").length > 0\<close>,
  \<open>linuxMainExists\<close> is \<^verbatim>\<open>linuxMain.exists\<close>, and
  \<open>activeOperation\<close> the task of \<^verbatim>\<open>taskQueue.activeOperation\<close>, if there is one.
\<close>

record FolderContext =
  ident :: nat
  folder :: string
  workspaceFolder :: WorkspaceFolder
  relativePath :: string
  foundPackage :: bool
  executableProducts :: "string list"
  hasTestTargets :: bool
  linuxMainExists :: bool
  activeOperation :: "Task option"

datatype FolderEvent = add | remove | focus | unfocus | packageUpdated | resolvedUpdated

text \<open>
  \<^verbatim>\<open>currentFolder: FolderContext | null | undefined\<close>: \<open>Undefined\<close> is the state before
  anything was set up, \<open>Defined None\<close> the explicit null focus.
\<close>

datatype CurrentFolder = Undefined | Defined "FolderContext option"

text \<open>
  An observer reacts to an event by changing the world outside the core (\<open>'w\<close>) and
  either returns (\<open>None\<close>) or throws (\<open>Some message\<close>). Awaiting an observer is
  running its reaction to the end before the next statement. The source hands the
  workspace context to the observer as well; here an observer reads and changes the
  world only, not the context, and the set of observers stays as it is during a dispatch.
\<close>

type_synonym 'w observer =
  "FolderContext option \<Rightarrow> FolderEvent \<Rightarrow> 'w \<Rightarrow> string option \<times> 'w"

text \<open>
  The trace of what the core did to its surroundings: observer number \<open>i\<close> (its place
  in registration order) was invoked for a folder and an event, or a folder context was
  disposed.
\<close>

datatype entry =
    Notified nat "FolderContext option" FolderEvent
  | Disposed FolderContext

text \<open>
  Calls the source starts without awaiting them are kept as pending jobs, each holding
  what is left to run after the point where the call was suspended.
\<close>

datatype 'w job =
    Teardown FolderContext "(nat \<times> 'w observer) list"
  | Refocus "FolderContext option" "(nat \<times> 'w observer) list" "FolderContext option"
  | Focusing "FolderContext option" "(nat \<times> 'w observer) list"
  | ResolveFocus Uri "FolderContext option"

record 'w WorkspaceContext =
  folders :: "FolderContext list"
  currentFolder :: CurrentFolder
  currentDocument :: "Uri option"
  lastFocusUri :: "Uri option"
  initialisationFinished :: bool
  observers :: "'w observer list"
  world :: 'w
  calls :: "entry list"
  pending :: "'w job list"
  nextIdent :: nat

section \<open>Event dispatch\<close>

text \<open>
  \<^verbatim>\<open>for (const observer of this.observers) { await observer(folder, event, this); }\<close>
  over observers paired with their registration number. A throwing observer ends the
  loop with its error.
\<close>

fun notify ::
  "(nat \<times> 'w observer) list \<Rightarrow> FolderContext option \<Rightarrow> FolderEvent \<Rightarrow>
   'w WorkspaceContext \<Rightarrow> string option \<times> 'w WorkspaceContext" where
  "notify [] f e ws = (None, ws)"
| "notify ((i, ob) # rest) f e ws =
     (case ob f e (world ws) of
        (Some err, w') \<Rightarrow> (Some err, ws\<lparr>world := w', calls := calls ws @ [Notified i f e]\<rparr>)
      | (None, w') \<Rightarrow> notify rest f e (ws\<lparr>world := w', calls := calls ws @ [Notified i f e]\<rparr>))"

definition numbered :: "'a list \<Rightarrow> (nat \<times> 'a) list" where
  "numbered xs = zip [0..<length xs] xs"

definition fireEvent ::
  "FolderContext option \<Rightarrow> FolderEvent \<Rightarrow> 'w WorkspaceContext \<Rightarrow>
   string option \<times> 'w WorkspaceContext" where
  "fireEvent f e ws = notify (numbered (observers ws)) f e ws"

section \<open>Focus\<close>

definition focusFolder ::
  "FolderContext option \<Rightarrow> 'w WorkspaceContext \<Rightarrow> string option \<times> 'w WorkspaceContext" where
  "focusFolder folderContext ws =
     (if Defined folderContext = currentFolder ws then (None, ws)
      else
        (case (case currentFolder ws of
                 Undefined \<Rightarrow> (None, ws)
               | Defined cur \<Rightarrow> fireEvent cur unfocus ws) of
           (Some err, ws1) \<Rightarrow> (Some err, ws1)
         | (None, ws1) \<Rightarrow> fireEvent folderContext focus (ws1\<lparr>currentFolder := Defined folderContext\<rparr>)))"

section \<open>The host and the missing collaborators\<close>

text \<open>
  What the core asks of its surroundings: the file system (\<^verbatim>\<open>pathExists\<close>), the editor's
  \<^verbatim>\<open>workspace.getWorkspaceFolder\<close>, Node's \<^verbatim>\<open>path.dirname\<close>, the containment test
  \<^verbatim>\<open>isPathInsidePath\<close> and the loading of a folder's package, which can fail.
\<close>

record host =
  pathExists :: "string \<Rightarrow> string \<Rightarrow> bool"
  getWorkspaceFolder :: "string \<Rightarrow> WorkspaceFolder option"
  dirname :: "string \<Rightarrow> string"
  isPathInsidePath :: "string \<Rightarrow> string \<Rightarrow> bool"
  loadFolder :: "string \<Rightarrow> WorkspaceFolder \<Rightarrow> string + FolderContext"

text \<open>
  Modelled from the spec: \<^verbatim>\<open>FolderContext.create\<close> (FolderContext.ts is not among the
  sources). A Folder is created with the given root path and owning workspace root, which
  never change afterwards; its queue starts without an active operation. \<open>n\<close> is the
  allocation number of the new object.
\<close>

definition create :: "host \<Rightarrow> string \<Rightarrow> WorkspaceFolder \<Rightarrow> nat \<Rightarrow> string + FolderContext" where
  "create h path wsf n =
     (case loadFolder h path wsf of
        Inl err \<Rightarrow> Inl err
      | Inr fc \<Rightarrow> Inr (fc\<lparr>ident := n, folder := path, workspaceFolder := wsf, activeOperation := None\<rparr>))"

definition isValidWorkspaceFolder :: "host \<Rightarrow> string \<Rightarrow> bool" where
  "isValidWorkspaceFolder h dir =
     (pathExists h dir ''Package.swift'' \<or> pathExists h dir ''compile_commands.json'')"

section \<open>Adding a package folder\<close>

definition addPackageFolder ::
  "host \<Rightarrow> string \<Rightarrow> WorkspaceFolder \<Rightarrow> 'w WorkspaceContext \<Rightarrow>
   (string + FolderContext) \<times> 'w WorkspaceContext" where
  "addPackageFolder h path wsf ws =
     (case find (\<lambda>context. folder context = path) (folders ws) of
        Some existing \<Rightarrow> (Inr existing, ws)
      | None \<Rightarrow>
          (case create h path wsf (nextIdent ws) of
             Inl err \<Rightarrow> (Inl err, ws)
           | Inr folderContext \<Rightarrow>
               (case fireEvent (Some folderContext) add
                       (ws\<lparr>folders := folders ws @ [folderContext],
                           nextIdent := Suc (nextIdent ws)\<rparr>) of
                  (Some err, ws1) \<Rightarrow> (Inl err, ws1)
                | (None, ws1) \<Rightarrow> (Inr folderContext, ws1))))"

section \<open>Resolving the package folder of a file\<close>

datatype PackageFolder = Loaded FolderContext | Unloaded Uri

definition Uri_file :: "string \<Rightarrow> Uri" where
  "Uri_file p = \<lparr>scheme = ''file'', fsPath = p\<rparr>"

text \<open>
  The loop \<^verbatim>\<open>while (currentFolder !== workspacePath)\<close>: it ends only when the workspace
  path is met, so a walk that never meets it has no result (\<open>None\<close>).
\<close>

partial_function (option) searchParents ::
  "host \<Rightarrow> string \<Rightarrow> string \<Rightarrow> string option \<Rightarrow> string option option" where
  "searchParents h workspacePath currentDir packagePath =
     (if currentDir \<noteq> workspacePath
      then searchParents h workspacePath (dirname h currentDir)
             (if isValidWorkspaceFolder h (dirname h currentDir)
              then Some (dirname h currentDir) else packagePath)
      else Some packagePath)"

declare searchParents.simps [code]

text \<open>
  \<^verbatim>\<open>getPackageFolder\<close> after its look through the loaded folders, whose outcome is
  \<open>found\<close>. \<^verbatim>\<open>if (packagePath)\<close> is false for the empty string as well.
\<close>

definition searchPackage ::
  "host \<Rightarrow> Uri \<Rightarrow> FolderContext option \<Rightarrow> PackageFolder option option" where
  "searchPackage h url found =
     (case found of
        Some f \<Rightarrow> Some (Some (Loaded f))
      | None \<Rightarrow>
          (case getWorkspaceFolder h (fsPath url) of
             None \<Rightarrow> Some None
           | Some wsf \<Rightarrow>
               (case searchParents h (wfUri wsf) (dirname h (fsPath url))
                       (if isValidWorkspaceFolder h (dirname h (fsPath url))
                        then Some (dirname h (fsPath url)) else None) of
                  None \<Rightarrow> None
                | Some None \<Rightarrow> Some None
                | Some (Some packagePath) \<Rightarrow>
                    (if packagePath \<noteq> [] then Some (Some (Unloaded (Uri_file packagePath)))
                     else Some None))))"

definition findLoaded :: "host \<Rightarrow> Uri \<Rightarrow> 'w WorkspaceContext \<Rightarrow> FolderContext option" where
  "findLoaded h url ws =
     find (\<lambda>context. isPathInsidePath h (fsPath url) (folder context)) (folders ws)"

definition getPackageFolder ::
  "host \<Rightarrow> Uri \<Rightarrow> 'w WorkspaceContext \<Rightarrow> PackageFolder option option" where
  "getPackageFolder h url ws = searchPackage h url (findLoaded h url ws)"

section \<open>Focus from the active file\<close>

definition unfocusCurrentFolder ::
  "'w WorkspaceContext \<Rightarrow> string option \<times> 'w WorkspaceContext" where
  "unfocusCurrentFolder ws =
     (case (case currentFolder ws of
              Undefined \<Rightarrow> (None, ws)
            | Defined cur \<Rightarrow> fireEvent cur unfocus ws) of
        (Some err, ws1) \<Rightarrow> (Some err, ws1)
      | (None, ws1) \<Rightarrow> (None, ws1\<lparr>currentFolder := Undefined\<rparr>))"

text \<open>The body of \<^verbatim>\<open>focusPackageUri\<close> once \<^verbatim>\<open>getPackageFolder\<close> has answered.\<close>

definition withPackageFolder ::
  "host \<Rightarrow> Uri \<Rightarrow> PackageFolder option \<Rightarrow> 'w WorkspaceContext \<Rightarrow>
   string option \<times> 'w WorkspaceContext" where
  "withPackageFolder h uri packageFolder ws =
     (case packageFolder of
        Some (Loaded fc) \<Rightarrow>
          (case focusFolder (Some fc) ws of
             (Some err, ws1) \<Rightarrow> (Some err, ws1)
           | (None, ws1) \<Rightarrow> (None, ws1\<lparr>lastFocusUri := None\<rparr>))
      | Some (Unloaded dir) \<Rightarrow>
          (if \<not> initialisationFinished ws then (None, ws\<lparr>lastFocusUri := Some uri\<rparr>)
           else
             (case getWorkspaceFolder h (fsPath dir) of
                None \<Rightarrow> (None, ws)
              | Some wsf \<Rightarrow>
                  (case unfocusCurrentFolder ws of
                     (Some err, ws1) \<Rightarrow> (Some err, ws1)
                   | (None, ws1) \<Rightarrow>
                       (case addPackageFolder h (fsPath dir) wsf ws1 of
                          (Inl err, ws2) \<Rightarrow> (Some err, ws2)
                        | (Inr fc, ws2) \<Rightarrow> focusFolder (Some fc) ws2))))
      | None \<Rightarrow> focusFolder None ws)"

definition focusPackageUri ::
  "host \<Rightarrow> Uri \<Rightarrow> 'w WorkspaceContext \<Rightarrow> (string option \<times> 'w WorkspaceContext) option" where
  "focusPackageUri h uri ws =
     (case getPackageFolder h uri ws of
        None \<Rightarrow> None
      | Some packageFolder \<Rightarrow> Some (withPackageFolder h uri packageFolder ws))"

definition focusUri ::
  "host \<Rightarrow> Uri option \<Rightarrow> 'w WorkspaceContext \<Rightarrow> (string option \<times> 'w WorkspaceContext) option" where
  "focusUri h uri ws =
     (case uri of
        None \<Rightarrow> Some (None, ws\<lparr>currentDocument := None\<rparr>)
      | Some u \<Rightarrow>
          (if scheme u = ''file'' then focusPackageUri h u (ws\<lparr>currentDocument := Some u\<rparr>)
           else Some (None, ws\<lparr>currentDocument := Some u\<rparr>)))"

section \<open>Calls that are started and not awaited\<close>

text \<open>
  An \<^verbatim>\<open>async\<close> function called without \<^verbatim>\<open>await\<close> runs up to its first \<^verbatim>\<open>await\<close>
  and is suspended there; the caller goes on. Inside a dispatch loop that point is
  right after the first observer was invoked. What the loop has left is either nothing
  (the observer threw: the call is rejected and nobody handles it), the remaining
  observers, or the loop ended without any observer.
\<close>

datatype 'w started = Threw | Awaiting "(nat \<times> 'w observer) list" | Completed

fun startDispatch ::
  "(nat \<times> 'w observer) list \<Rightarrow> FolderContext option \<Rightarrow> FolderEvent \<Rightarrow>
   'w WorkspaceContext \<Rightarrow> 'w started \<times> 'w WorkspaceContext" where
  "startDispatch [] f e ws = (Completed, ws)"
| "startDispatch ((i, ob) # rest) f e ws =
     (case ob f e (world ws) of
        (Some err, w') \<Rightarrow> (Threw, ws\<lparr>world := w', calls := calls ws @ [Notified i f e]\<rparr>)
      | (None, w') \<Rightarrow> (Awaiting rest, ws\<lparr>world := w', calls := calls ws @ [Notified i f e]\<rparr>))"

text \<open>
  The removal loop of one folder, from the observers it has left:
  \<^verbatim>\<open>for (const observer of observersReversed) { await observer(folder, FolderEvent.remove, this); }
  folder.dispose();\<close>
\<close>

definition runTeardown ::
  "FolderContext \<Rightarrow> (nat \<times> 'w observer) list \<Rightarrow> 'w WorkspaceContext \<Rightarrow> 'w WorkspaceContext" where
  "runTeardown f obs ws =
     (case startDispatch obs (Some f) remove ws of
        (Threw, ws1) \<Rightarrow> ws1
      | (Awaiting rest, ws1) \<Rightarrow> ws1\<lparr>pending := pending ws1 @ [Teardown f rest]\<rparr>
      | (Completed, ws1) \<Rightarrow> ws1\<lparr>calls := calls ws1 @ [Disposed f]\<rparr>)"

text \<open>The focus dispatch that ends \<^verbatim>\<open>focusFolder\<close>, from the observers it has left.\<close>

definition runFocusing ::
  "FolderContext option \<Rightarrow> (nat \<times> 'w observer) list \<Rightarrow> 'w WorkspaceContext \<Rightarrow>
   'w WorkspaceContext" where
  "runFocusing target obs ws =
     (case startDispatch obs target focus ws of
        (Awaiting rest, ws1) \<Rightarrow> ws1\<lparr>pending := pending ws1 @ [Focusing target rest]\<rparr>
      | (_, ws1) \<Rightarrow> ws1)"

text \<open>
  The unfocus dispatch inside \<^verbatim>\<open>focusFolder\<close>. When it ends, \<^verbatim>\<open>focusFolder\<close> is still
  suspended at \<^verbatim>\<open>await this.fireEvent(...)\<close>: the current folder is set only when the
  job runs again.
\<close>

definition runUnfocusing ::
  "FolderContext option \<Rightarrow> (nat \<times> 'w observer) list \<Rightarrow> FolderContext option \<Rightarrow>
   'w WorkspaceContext \<Rightarrow> 'w WorkspaceContext" where
  "runUnfocusing cur obs target ws =
     (case startDispatch obs cur unfocus ws of
        (Threw, ws1) \<Rightarrow> ws1
      | (Awaiting rest, ws1) \<Rightarrow> ws1\<lparr>pending := pending ws1 @ [Refocus cur rest target]\<rparr>
      | (Completed, ws1) \<Rightarrow> ws1\<lparr>pending := pending ws1 @ [Refocus cur [] target]\<rparr>)"

text \<open>\<^verbatim>\<open>this.focusFolder(target)\<close> without \<^verbatim>\<open>await\<close>.\<close>

definition startFocusFolder ::
  "FolderContext option \<Rightarrow> 'w WorkspaceContext \<Rightarrow> 'w WorkspaceContext" where
  "startFocusFolder target ws =
     (if Defined target = currentFolder ws then ws
      else
        (case currentFolder ws of
           Undefined \<Rightarrow>
             runFocusing target (numbered (observers ws)) (ws\<lparr>currentFolder := Defined target\<rparr>)
         | Defined cur \<Rightarrow> runUnfocusing cur (numbered (observers ws)) target ws))"

text \<open>\<^verbatim>\<open>this.focusUri(uri)\<close> without \<^verbatim>\<open>await\<close>: it is suspended in \<^verbatim>\<open>focusPackageUri\<close> at
  \<^verbatim>\<open>await this.getPackageFolder(uri)\<close>, after the look through the loaded folders.\<close>

definition startFocusUri :: "host \<Rightarrow> Uri \<Rightarrow> 'w WorkspaceContext \<Rightarrow> 'w WorkspaceContext" where
  "startFocusUri h u ws =
     (if scheme u = ''file''
      then ws\<lparr>currentDocument := Some u,
              pending := pending ws @ [ResolveFocus u (findLoaded h u ws)]\<rparr>
      else ws\<lparr>currentDocument := Some u\<rparr>)"

text \<open>
  Running a suspended job up to its next \<^verbatim>\<open>await\<close>. The rest of \<^verbatim>\<open>focusPackageUri\<close>
  is run as a whole; its error, if any, is dropped with the rejected call.
\<close>

fun continueJob :: "host \<Rightarrow> 'w job \<Rightarrow> 'w WorkspaceContext \<Rightarrow> 'w WorkspaceContext option" where
  "continueJob h (Teardown f obs) ws = Some (runTeardown f obs ws)"
| "continueJob h (Refocus cur [] target) ws =
     Some (runFocusing target (numbered (observers ws)) (ws\<lparr>currentFolder := Defined target\<rparr>))"
| "continueJob h (Refocus cur (ob # obs) target) ws = Some (runUnfocusing cur (ob # obs) target ws)"
| "continueJob h (Focusing target obs) ws = Some (runFocusing target obs ws)"
| "continueJob h (ResolveFocus u found) ws =
     (case searchPackage h u found of
        None \<Rightarrow> None
      | Some packageFolder \<Rightarrow> Some (snd (withPackageFolder h u packageFolder ws)))"

definition resume :: "host \<Rightarrow> nat \<Rightarrow> 'w WorkspaceContext \<Rightarrow> 'w WorkspaceContext option" where
  "resume h k ws =
     (if k < length (pending ws)
      then continueJob h (pending ws ! k)
             (ws\<lparr>pending := take k (pending ws) @ drop (Suc k) (pending ws)\<rparr>)
      else Some ws)"

section \<open>End of initialisation\<close>

definition initialisationComplete :: "host \<Rightarrow> 'w WorkspaceContext \<Rightarrow> 'w WorkspaceContext" where
  "initialisationComplete h ws =
     (case lastFocusUri ws of
        None \<Rightarrow> ws\<lparr>initialisationFinished := True\<rparr>
      | Some u \<Rightarrow> (startFocusUri h u (ws\<lparr>initialisationFinished := True\<rparr>))\<lparr>lastFocusUri := None\<rparr>)"

section \<open>Removing a workspace folder\<close>

text \<open>
  \<^verbatim>\<open>this.folders.forEach(async folder => { ... })\<close> calls the function once per folder,
  in the order of the array, and awaits none of the calls; the filter that follows runs
  when the last of them is suspended.
\<close>

definition removeCallback ::
  "WorkspaceFolder \<Rightarrow> FolderContext \<Rightarrow> 'w WorkspaceContext \<Rightarrow> 'w WorkspaceContext" where
  "removeCallback wsf f ws =
     (if workspaceFolder f \<noteq> wsf then ws
      else
        (let ws1 = (if currentFolder ws = Defined (Some f) then startFocusFolder None ws else ws)
         in runTeardown f (rev (numbered (observers ws1))) ws1))"

definition removeWorkspaceFolder ::
  "WorkspaceFolder \<Rightarrow> 'w WorkspaceContext \<Rightarrow> 'w WorkspaceContext" where
  "removeWorkspaceFolder wsf ws =
     (let ws1 = fold (removeCallback wsf) (folders ws) ws
      in ws1\<lparr>folders := filter (\<lambda>f. workspaceFolder f \<noteq> wsf) (folders ws1)\<rparr>)"

section \<open>The task provider\<close>





definition buildAllName :: string where
  "buildAllName = ''Build All''"

definition buildTaskName :: "FolderContext \<Rightarrow> string" where
  "buildTaskName fc =
     (if length (relativePath fc) > 0 then buildAllName @ '' ('' @ relativePath fc @ '')''
      else buildAllName)"









section \<open>Looking up the build task of a folder\<close>

datatype TaskError = TypeError | BuildAllTaskDoesNotExist

text \<open>
  \<^verbatim>\<open>(task.execution as vscode.ProcessExecution).options?.cwd\<close>: reading \<^verbatim>\<open>options\<close> of a
  missing execution throws; a custom execution has no options.
\<close>

definition optionsCwd :: "Task \<Rightarrow> TaskError + string option" where
  "optionsCwd t =
     (case execution t of
        None \<Rightarrow> Inl TypeError
      | Some (ProcessExecution opts) \<Rightarrow> Inr (case opts of None \<Rightarrow> None | Some c \<Rightarrow> c)
      | Some (ShellExecution opts) \<Rightarrow> Inr (case opts of None \<Rightarrow> None | Some c \<Rightarrow> c)
      | Some CustomExecution \<Rightarrow> Inr None)"

text \<open>The filter over the fetched tasks; an error in the callback ends it.\<close>

fun workspaceTasks :: "FolderContext \<Rightarrow> Task list \<Rightarrow> TaskError + Task list" where
  "workspaceTasks fc [] = Inr []"
| "workspaceTasks fc (t # ts) =
     (if taskSource t \<noteq> ''Workspace'' \<or> taskScope t \<noteq> ScopeFolder (workspaceFolder fc)
      then workspaceTasks fc ts
      else
        (case optionsCwd t of
           Inl err \<Rightarrow> Inl err
         | Inr c \<Rightarrow>
             (let cwd = (if c = Some ''${workspaceFolder}'' \<or> c = None
                         then wfUri (workspaceFolder fc) else the c)
              in case workspaceTasks fc ts of
                   Inl err \<Rightarrow> Inl err
                 | Inr kept \<Rightarrow> Inr (if cwd = folder fc then t # kept else kept))))"

definition isDefaultBuild :: "Task \<Rightarrow> bool" where
  "isDefaultBuild t =
     (case taskGroup t of
        None \<Rightarrow> False
      | Some g \<Rightarrow> groupId g = groupId TaskGroup_Build \<and> isDefault g = Some True)"

text \<open>The search through the generated tasks; the name is tested first.\<close>

fun findGenerated :: "FolderContext \<Rightarrow> Task list \<Rightarrow> TaskError + Task option" where
  "findGenerated fc [] = Inr None"
| "findGenerated fc (t # ts) =
     (if taskName t = buildTaskName fc
      then
        (case optionsCwd t of
           Inl err \<Rightarrow> Inl err
         | Inr c \<Rightarrow>
             (if c = Some (folder fc) \<and> taskSource t = ''swift'' then Inr (Some t)
              else findGenerated fc ts))
      else findGenerated fc ts)"

text \<open>
  \<open>fetchTasks\<close> is the host's \<^verbatim>\<open>vscode.tasks.fetchTasks\<close>, given the type filter or none.
\<close>

definition getBuildAllTask ::
  "(string option \<Rightarrow> Task list) \<Rightarrow> FolderContext \<Rightarrow> TaskError + Task" where
  "getBuildAllTask fetchTasks fc =
     (case workspaceTasks fc (fetchTasks None) of
        Inl err \<Rightarrow> Inl err
      | Inr ts \<Rightarrow>
          (case find isDefaultBuild ts of
             Some t \<Rightarrow> Inr t
           | None \<Rightarrow>
               (case find (\<lambda>t. taskName t = ''swift: '' @ buildTaskName fc) ts of
                  Some t \<Rightarrow> Inr t
                | None \<Rightarrow>
                    (case findGenerated fc (fetchTasks (Some ''swift'')) of
                       Inl err \<Rightarrow> Inl err
                     | Inr (Some t) \<Rightarrow> Inr t
                     | Inr None \<Rightarrow> Inl BuildAllTaskDoesNotExist))))"

section \<open>Sequences of operations\<close>

text \<open>
  What can happen to the workspace context, one thing at a time: a package folder is
  added, a workspace folder is removed, the active file changes, the initialisation
  ends, the focus is set, or a suspended job runs on. An error thrown by an operation is
  the caller's to handle; the context goes on as the operation left it. An operation
  whose search loop does not end has no result.
\<close>

datatype operation =
    Add string WorkspaceFolder
  | Remove WorkspaceFolder
  | Activate "Uri option"
  | Focus "FolderContext option"
  | Initialised
  | Continue nat

fun exec :: "host \<Rightarrow> operation \<Rightarrow> 'w WorkspaceContext \<Rightarrow> 'w WorkspaceContext option" where
  "exec h (Add path wsf) ws = Some (snd (addPackageFolder h path wsf ws))"
| "exec h (Remove wsf) ws = Some (removeWorkspaceFolder wsf ws)"
| "exec h (Activate uri) ws = map_option snd (focusUri h uri ws)"
| "exec h (Focus f) ws = Some (snd (focusFolder f ws))"
| "exec h Initialised ws = Some (initialisationComplete h ws)"
| "exec h (Continue k) ws = resume h k ws"

fun run :: "host \<Rightarrow> operation list \<Rightarrow> 'w WorkspaceContext \<Rightarrow> 'w WorkspaceContext option" where
  "run h [] ws = Some ws"
| "run h (op # ops) ws = (case exec h op ws of None \<Rightarrow> None | Some ws1 \<Rightarrow> run h ops ws1)"

fun folderOp :: "operation \<Rightarrow> bool" where
  "folderOp (Add path wsf) = True"
| "folderOp (Remove wsf) = True"
| "folderOp _ = False"

section \<open>Reading the trace\<close>

text \<open>
  The world after every observer of a list has reacted to an event, one after the
  other, each starting from the world the one before it left.
\<close>

fun reactions ::
  "'w observer list \<Rightarrow> FolderContext option \<Rightarrow> FolderEvent \<Rightarrow> 'w \<Rightarrow> 'w" where
  "reactions [] f e w = w"
| "reactions (ob # rest) f e w = reactions rest f e (snd (ob f e w))"

fun isEvent :: "FolderEvent \<Rightarrow> entry \<Rightarrow> bool" where
  "isEvent e (Notified i f e') = (e' = e)"
| "isEvent e (Disposed f) = False"

text \<open>
  The entries of the trace that belong to the teardown of folders (remove notifications
  and disposals), and the pending jobs that are teardowns.
\<close>

fun teardownEntry :: "entry \<Rightarrow> bool" where
  "teardownEntry (Notified i f e) = (e = remove)"
| "teardownEntry (Disposed f) = True"

fun isTeardown :: "'w job \<Rightarrow> bool" where
  "isTeardown (Teardown f obs) = True"
| "isTeardown _ = False"

text \<open>
  The directories the upward search visits: the file's containing directory \<open>dir\<close>
  first, then its parents, \<open>k\<close> steps up.
\<close>

definition parentChain :: "host \<Rightarrow> string \<Rightarrow> nat \<Rightarrow> string list" where
  "parentChain h dir k = map (\<lambda>j. (dirname h ^^ j) dir) [0..<Suc k]"

section \<open>The build tasks in the words of the specification\<close>

text \<open>
  The working directory a task declares, with an unset or placeholder directory taken
  as the root of the folder's workspace.
\<close>

definition resolvedCwd :: "FolderContext \<Rightarrow> Task \<Rightarrow> string" where
  "resolvedCwd fc t =
     (case optionsCwd t of
        Inr (Some c) \<Rightarrow> if c = ''${workspaceFolder}'' then wfUri (workspaceFolder fc) else c
      | _ \<Rightarrow> wfUri (workspaceFolder fc))"

text \<open>
  A user-declared task of the folder's workspace whose working directory is the
  folder's root.
\<close>

definition declaredFor :: "FolderContext \<Rightarrow> Task \<Rightarrow> bool" where
  "declaredFor fc t =
     (taskSource t = ''Workspace'' \<and> taskScope t = ScopeFolder (workspaceFolder fc) \<and>
      resolvedCwd fc t = folder fc)"

text \<open>A task generated by this provider whose name and working directory match the folder.\<close>

definition generatedFor :: "FolderContext \<Rightarrow> Task \<Rightarrow> bool" where
  "generatedFor fc t =
     (taskName t = buildTaskName fc \<and> optionsCwd t = Inr (Some (folder fc)) \<and>
      taskSource t = ''swift'')"

text \<open>
  First match wins: the declared default build task, then the declared task with the
  name under which the generated task is shown, then the generated task, else the error.
\<close>

definition buildTaskPrecedence ::
  "(string option \<Rightarrow> Task list) \<Rightarrow> FolderContext \<Rightarrow> TaskError + Task" where
  "buildTaskPrecedence fetchTasks fc =
     (case find (\<lambda>t. declaredFor fc t \<and> isDefaultBuild t) (fetchTasks None) of
        Some t \<Rightarrow> Inr t
      | None \<Rightarrow>
          (case find (\<lambda>t. declaredFor fc t \<and> taskName t = ''swift: '' @ buildTaskName fc)
                  (fetchTasks None) of
             Some t \<Rightarrow> Inr t
           | None \<Rightarrow>
               (case find (generatedFor fc) (fetchTasks (Some ''swift'')) of
                  Some t \<Rightarrow> Inr t
                | None \<Rightarrow> Inl BuildAllTaskDoesNotExist)))"




section \<open>Concrete inputs\<close>

text \<open>
  A workspace root \<^verbatim>\<open>/ws\<close> with the package folders \<^verbatim>\<open>/ws/A\<close> and \<^verbatim>\<open>/ws/B\<close>, and
  observers over a world that counts the reactions: one that returns, one that throws.
\<close>

definition rootWs :: WorkspaceFolder where
  "rootWs = \<lparr>wfUri = ''/ws'', wfName = ''ws'', wfIndex = 0\<rparr>"

definition otherWs :: WorkspaceFolder where
  "otherWs = \<lparr>wfUri = ''/other'', wfName = ''other'', wfIndex = 1\<rparr>"

definition folderA :: FolderContext where
  "folderA = \<lparr>ident = 0, folder = ''/ws/A'', workspaceFolder = rootWs, relativePath = ''A'',
     foundPackage = True, executableProducts = [''tool''], hasTestTargets = False,
     linuxMainExists = False, activeOperation = None\<rparr>"

definition folderB :: FolderContext where
  "folderB = \<lparr>ident = 1, folder = ''/ws/B'', workspaceFolder = rootWs, relativePath = ''B'',
     foundPackage = True, executableProducts = [], hasTestTargets = False,
     linuxMainExists = False, activeOperation = None\<rparr>"

definition quiet :: "nat observer" where
  "quiet f e w = (None, Suc w)"


definition startWs :: "nat WorkspaceContext" where
  "startWs = \<lparr>folders = [folderA, folderB], currentFolder = Undefined, currentDocument = None,
     lastFocusUri = None, initialisationFinished = False, observers = [quiet, quiet],
     world = 0, calls = [], pending = [], nextIdent = 2\<rparr>"

definition focusedA :: "nat WorkspaceContext" where
  "focusedA = startWs\<lparr>currentFolder := Defined (Some folderA), initialisationFinished := True\<rparr>"


text \<open>
  A host for the examples: \<^verbatim>\<open>dirname\<close> and containment on normalised absolute POSIX
  paths, the workspace root \<^verbatim>\<open>/ws\<close>, and a file system in which \<^verbatim>\<open>/ws/outer\<close> and
  \<^verbatim>\<open>/ws/outer/inner\<close> both hold a manifest.
\<close>

definition posixDirname :: "string \<Rightarrow> string" where
  "posixDirname p =
     (let r = tl (dropWhile (\<lambda>c. c \<noteq> CHR ''/'') (rev p))
      in if r = [] then ''/'' else rev r)"

definition nestedFiles :: "(string \<times> string) list" where
  "nestedFiles = [(''/ws/outer'', ''Package.swift''), (''/ws/outer/inner'', ''Package.swift'')]"

definition blankFolder :: FolderContext where
  "blankFolder = \<lparr>ident = 0, folder = [], workspaceFolder = rootWs, relativePath = [],
     foundPackage = True, executableProducts = [], hasTestTargets = False,
     linuxMainExists = False, activeOperation = None\<rparr>"

definition nestedHost :: host where
  "nestedHost =
     \<lparr>pathExists = (\<lambda>dir file. (dir, file) \<in> set nestedFiles),
      getWorkspaceFolder = (\<lambda>p. if p = ''/ws'' \<or> take 4 p = ''/ws/'' then Some rootWs else None),
      dirname = posixDirname,
      isPathInsidePath = (\<lambda>sub parent. sub = parent \<or> take (Suc (length parent)) sub = parent @ ''/''),
      loadFolder = (\<lambda>p w. Inr blankFolder)\<rparr>"

definition innerFile :: Uri where
  "innerFile = Uri_file ''/ws/outer/inner/main.swift''"

definition outputPane :: Uri where
  "outputPane = \<lparr>scheme = ''output'', fsPath = ''tasks''\<rparr>"

definition addRemoveOps :: "operation list" where
  "addRemoveOps =
     [Add ''/ws/A'' rootWs, Add ''/ws/C'' rootWs, Remove otherWs, Add ''/ws/C'' rootWs]"

definition outerFile :: Uri where
  "outerFile = Uri_file ''/ws/outer/other.swift''"


definition userDefault :: Task where
  "userDefault = \<lparr>definitionType = ''shell'', definitionArgs = [],
     taskScope = ScopeFolder rootWs, taskName = ''my build'', taskSource = ''Workspace'',
     execution = Some (ShellExecution (Some (Some ''/ws/A''))),
     taskGroup = Some \<lparr>groupRef = 1, groupId = ''build'', isDefault = Some True\<rparr>,
     detail = None\<rparr>"


definition fetchFrom :: "Task list \<Rightarrow> string option \<Rightarrow> Task list" where
  "fetchFrom ts flt =
     (case flt of None \<Rightarrow> ts | Some ty \<Rightarrow> filter (\<lambda>t. definitionType t = ty) ts)"

definition compoundTask :: Task where
  "compoundTask = \<lparr>definitionType = ''shell'', definitionArgs = [],
     taskScope = ScopeFolder rootWs, taskName = ''everything'', taskSource = ''Workspace'',
     execution = None, taskGroup = None, detail = None\<rparr>"






section \<open>Properties of the event dispatch\<close>

lemma notify_frame:
  "notify obs f e ws = (r, ws') \<Longrightarrow>
   folders ws' = folders ws \<and> currentFolder ws' = currentFolder ws \<and>
   currentDocument ws' = currentDocument ws \<and> lastFocusUri ws' = lastFocusUri ws \<and>
   initialisationFinished ws' = initialisationFinished ws \<and> observers ws' = observers ws \<and>
   pending ws' = pending ws \<and> nextIdent ws' = nextIdent ws"
proof (induction obs arbitrary: ws)
  case Nil
  then show ?case by simp
next
  case (Cons a obs)
  obtain i ob where a: "a = (i, ob)" by (cases a)
  show ?case
  proof (cases "ob f e (world ws)")
    case (Pair o' w')
    show ?thesis
    proof (cases o')
      case None
      with Cons.prems a Pair
      have "notify obs f e (ws\<lparr>world := w', calls := calls ws @ [Notified i f e]\<rparr>) = (r, ws')"
        by simp
      from Cons.IH[OF this] show ?thesis by simp
    next
      case (Some err)
      with Cons.prems a Pair show ?thesis by auto
    qed
  qed
qed

lemma notify_calls:
  "notify obs f e ws = (r, ws') \<Longrightarrow>
   \<exists>k\<le>length obs. calls ws' = calls ws @ map (\<lambda>p. Notified (fst p) f e) (take k obs) \<and>
     (r = None \<longrightarrow> k = length obs) \<and>
     (\<forall>err. r = Some err \<longrightarrow> 0 < k \<and> (\<exists>w w'. snd (obs ! (k - 1)) f e w = (Some err, w')))"
proof (induction obs arbitrary: ws)
  case Nil
  then show ?case by simp
next
  case (Cons a obs)
  obtain i ob where a: "a = (i, ob)" by (cases a)
  show ?case
  proof (cases "ob f e (world ws)")
    case (Pair o' w')
    show ?thesis
    proof (cases o')
      case None
      let ?ws1 = "ws\<lparr>world := w', calls := calls ws @ [Notified i f e]\<rparr>"
      from Cons.prems a Pair None have "notify obs f e ?ws1 = (r, ws')"
        by simp
      from Cons.IH[OF this] obtain k where k: "k \<le> length obs"
        "calls ws' = calls ?ws1 @ map (\<lambda>p. Notified (fst p) f e) (take k obs)"
        "r = None \<longrightarrow> k = length obs"
        "\<forall>err. r = Some err \<longrightarrow> 0 < k \<and> (\<exists>w w'. snd (obs ! (k - 1)) f e w = (Some err, w'))"
        by blast
      have "\<forall>err. r = Some err \<longrightarrow> (\<exists>w w'. snd ((a # obs) ! (Suc k - 1)) f e w = (Some err, w'))"
        using k(4) by (cases k) auto
      with k a show ?thesis
        by (intro exI[of _ "Suc k"]) simp
    next
      case (Some err)
      with Cons.prems a Pair have "r = Some err" "ws' = ws\<lparr>world := w', calls := calls ws @ [Notified i f e]\<rparr>"
        by auto
      with a Pair Some show ?thesis
        by (intro exI[of _ "Suc 0"]) auto
    qed
  qed
qed

lemma map_fst_numbered: "map fst (numbered xs) = [0..<length xs]"
  by (simp add: numbered_def)

lemma length_numbered: "length (numbered xs) = length xs"
  by (simp add: numbered_def)

lemma numbered_nth: "i < length xs \<Longrightarrow> numbered xs ! i = (i, xs ! i)"
  by (simp add: numbered_def)

lemma take_numbered_fst: "k \<le> length xs \<Longrightarrow> map fst (take k (numbered xs)) = [0..<k]"
  by (simp add: numbered_def take_zip take_map[symmetric] min_def)

lemma fireEvent_trace:
  assumes "fireEvent f e ws = (r, ws')"
  shows "\<exists>k\<le>length (observers ws).
           calls ws' = calls ws @ map (\<lambda>i. Notified i f e) [0..<k] \<and>
           (r = None \<longrightarrow> k = length (observers ws)) \<and>
           (\<forall>err. r = Some err \<longrightarrow>
              0 < k \<and> (\<exists>w w'. (observers ws ! (k - 1)) f e w = (Some err, w')))"
proof -
  from assms have "notify (numbered (observers ws)) f e ws = (r, ws')"
    by (simp add: fireEvent_def)
  from notify_calls[OF this] obtain k where k: "k \<le> length (observers ws)"
    "calls ws' = calls ws @ map (\<lambda>p. Notified (fst p) f e) (take k (numbered (observers ws)))"
    "r = None \<longrightarrow> k = length (observers ws)"
    "\<forall>err. r = Some err \<longrightarrow> 0 < k \<and>
       (\<exists>w w'. snd (numbered (observers ws) ! (k - 1)) f e w = (Some err, w'))"
    by (auto simp: length_numbered)
  have "map (\<lambda>p. Notified (fst p) f e) (take k (numbered (observers ws)))
        = map (\<lambda>i. Notified i f e) (map fst (take k (numbered (observers ws))))"
    by simp
  also have "\<dots> = map (\<lambda>i. Notified i f e) [0..<k]"
    using take_numbered_fst[OF k(1)] by simp
  finally have c: "calls ws' = calls ws @ map (\<lambda>i. Notified i f e) [0..<k]"
    using k(2) by simp
  have "\<forall>err. r = Some err \<longrightarrow> 0 < k \<and> (\<exists>w w'. (observers ws ! (k - 1)) f e w = (Some err, w'))"
  proof (intro allI impI)
    fix err assume "r = Some err"
    with k(4) obtain w w' where kk: "0 < k" "snd (numbered (observers ws) ! (k - 1)) f e w = (Some err, w')"
      by blast
    with k(1) have "k - 1 < length (observers ws)" by simp
    from numbered_nth[OF this] kk show "0 < k \<and> (\<exists>w w'. (observers ws ! (k - 1)) f e w = (Some err, w'))"
      by auto
  qed
  with c k show ?thesis by blast
qed

lemma fireEvent_frame:
  "fireEvent f e ws = (r, ws') \<Longrightarrow>
   folders ws' = folders ws \<and> currentFolder ws' = currentFolder ws \<and>
   currentDocument ws' = currentDocument ws \<and> lastFocusUri ws' = lastFocusUri ws \<and>
   initialisationFinished ws' = initialisationFinished ws \<and> observers ws' = observers ws \<and>
   pending ws' = pending ws \<and> nextIdent ws' = nextIdent ws"
  unfolding fireEvent_def by (rule notify_frame)

lemma fireEvent_first:
  assumes "fireEvent f e ws = (r, ws')" "observers ws \<noteq> []"
  shows "\<exists>k. 0 < k \<and> k \<le> length (observers ws) \<and>
           calls ws' = calls ws @ map (\<lambda>i. Notified i f e) [0..<k] \<and>
           (r = None \<longrightarrow> k = length (observers ws))"
proof -
  from fireEvent_trace[OF assms(1)] obtain k where k: "k \<le> length (observers ws)"
    "calls ws' = calls ws @ map (\<lambda>i. Notified i f e) [0..<k]"
    "r = None \<longrightarrow> k = length (observers ws)"
    "\<forall>err. r = Some err \<longrightarrow> 0 < k" by blast
  have "0 < k" using k(3,4) assms(2) by (cases r) auto
  with k show ?thesis by blast
qed

lemma notify_world:
  "notify obs f e ws = (None, ws') \<Longrightarrow> world ws' = reactions (map snd obs) f e (world ws)"
proof (induction obs arbitrary: ws)
  case Nil
  then show ?case by simp
next
  case (Cons a obs)
  obtain i ob where a: "a = (i, ob)" by (cases a)
  show ?case
  proof (cases "ob f e (world ws)")
    case (Pair o' w')
    show ?thesis
    proof (cases o')
      case None
      with Cons.prems a Pair
      have "notify obs f e (ws\<lparr>world := w', calls := calls ws @ [Notified i f e]\<rparr>) = (None, ws')"
        by simp
      from Cons.IH[OF this] a Pair show ?thesis by simp
    next
      case (Some err)
      with Cons.prems a Pair show ?thesis by simp
    qed
  qed
qed

lemma map_snd_numbered: "map snd (numbered xs) = xs"
  by (simp add: numbered_def)

lemma fireEvent_world:
  "fireEvent f e ws = (None, ws') \<Longrightarrow> world ws' = reactions (observers ws) f e (world ws)"
  unfolding fireEvent_def using notify_world[of "numbered (observers ws)" f e ws ws']
  by (simp add: map_snd_numbered)



section \<open>Properties of the focus transitions\<close>

text \<open>
  Claim C1. When the current folder is a determined state \<open>A\<close> (a folder or null) and a
  different target \<open>B\<close> is requested, the trace grows by unfocus invocations for \<open>A\<close>
  followed by focus invocations for \<open>B\<close>, each in registration order. A focus
  invocation is there (\<open>0 < m\<close>) only when the unfocus event went to every observer and
  every one of them returned; when the call returns normally both events went to all
  observers, \<open>B\<close> is the current folder, and the world is the one left by the
  reactions to focus, all of which started after the last reaction to unfocus had ended.
\<close>

theorem focusFolder_unfocus_before_focus:
  assumes cur: "currentFolder ws = Defined A"
    and diff: "B \<noteq> A"
    and run: "focusFolder B ws = (r, ws')"
  shows "\<exists>k m. k \<le> length (observers ws) \<and> m \<le> length (observers ws) \<and>
           calls ws' = calls ws @ map (\<lambda>i. Notified i A unfocus) [0..<k]
                                @ map (\<lambda>i. Notified i B focus) [0..<m] \<and>
           (0 < m \<longrightarrow> k = length (observers ws)) \<and>
           (r = None \<longrightarrow> k = length (observers ws) \<and> m = length (observers ws) \<and>
              currentFolder ws' = Defined B \<and>
              world ws' = reactions (observers ws) B focus
                            (reactions (observers ws) A unfocus (world ws)))"
proof -
  obtain r1 ws1 where u: "fireEvent A unfocus ws = (r1, ws1)"
    by (cases "fireEvent A unfocus ws")
  from fireEvent_trace[OF u] obtain k where k: "k \<le> length (observers ws)"
    "calls ws1 = calls ws @ map (\<lambda>i. Notified i A unfocus) [0..<k]"
    "r1 = None \<longrightarrow> k = length (observers ws)" by blast
  note fr1 = fireEvent_frame[OF u]
  show ?thesis
  proof (cases r1)
    case (Some err)
    with run cur diff u have "r = Some err" "ws' = ws1"
      by (auto simp: focusFolder_def)
    with k show ?thesis
      by (intro exI[of _ k] exI[of _ 0]) simp
  next
    case None
    let ?ws2 = "ws1\<lparr>currentFolder := Defined B\<rparr>"
    from None run cur diff u have f: "fireEvent B focus ?ws2 = (r, ws')"
      by (auto simp: focusFolder_def)
    from fireEvent_trace[OF f] obtain m where m: "m \<le> length (observers ?ws2)"
      "calls ws' = calls ?ws2 @ map (\<lambda>i. Notified i B focus) [0..<m]"
      "r = None \<longrightarrow> m = length (observers ?ws2)" by blast
    note fr2 = fireEvent_frame[OF f]
    from None k have kn: "k = length (observers ws)" by simp
    from None u have w1: "world ws1 = reactions (observers ws) A unfocus (world ws)"
      by (simp add: fireEvent_world)
    have w2: "r = None \<longrightarrow> world ws' = reactions (observers ws) B focus (world ws1)"
    proof
      assume "r = None"
      with f have "fireEvent B focus ?ws2 = (None, ws')" by simp
      from fireEvent_world[OF this] fr1 show "world ws' = reactions (observers ws) B focus (world ws1)"
        by simp
    qed
    from m fr1 k kn fr2 w1 w2 show ?thesis
      by (intro exI[of _ k] exI[of _ m]) simp
  qed
qed

theorem focusFolder_unfocus_before_focus_witness:
  "currentFolder focusedA = Defined (Some folderA) \<and> Some folderB \<noteq> Some folderA \<and>
   focusFolder (Some folderB) focusedA =
     (None, focusedA\<lparr>currentFolder := Defined (Some folderB), world := 4,
          calls := [Notified 0 (Some folderA) unfocus, Notified 1 (Some folderA) unfocus,
                    Notified 0 (Some folderB) focus, Notified 1 (Some folderB) focus]\<rparr>) \<and>
   (\<exists>k m. calls (focusedA\<lparr>currentFolder := Defined (Some folderB), world := 4,
          calls := [Notified 0 (Some folderA) unfocus, Notified 1 (Some folderA) unfocus,
                    Notified 0 (Some folderB) focus, Notified 1 (Some folderB) focus]\<rparr>) =
            calls focusedA @ map (\<lambda>i. Notified i (Some folderA) unfocus) [0..<k]
                           @ map (\<lambda>i. Notified i (Some folderB) focus) [0..<m] \<and>
          k = length (observers focusedA) \<and> m = length (observers focusedA))"
proof -
  have cur: "currentFolder focusedA = Defined (Some folderA)"
    by (simp add: focusedA_def)
  have diff: "Some folderB \<noteq> Some folderA"
    by (simp add: folderA_def folderB_def)
  have run: "focusFolder (Some folderB) focusedA =
     (None, focusedA\<lparr>currentFolder := Defined (Some folderB), world := 4,
          calls := [Notified 0 (Some folderA) unfocus, Notified 1 (Some folderA) unfocus,
                    Notified 0 (Some folderB) focus, Notified 1 (Some folderB) focus]\<rparr>)"
    by (simp add: focusFolder_def fireEvent_def focusedA_def startWs_def numbered_def quiet_def
          upt_rec folderA_def folderB_def)
  from focusFolder_unfocus_before_focus[OF cur diff run] cur diff run show ?thesis
    by blast
qed

lemma filter_isEvent_map_same:
  "filter (isEvent e) (map (\<lambda>i. Notified i f e) xs) = map (\<lambda>i. Notified i f e) xs"
  by (induction xs) auto

lemma filter_isEvent_map_other:
  "e' \<noteq> e \<Longrightarrow> filter (isEvent e) (map (\<lambda>i. Notified i f e') xs) = []"
  by (induction xs) auto

lemma focusFolder_same:
  "currentFolder ws = Defined F \<Longrightarrow> focusFolder F ws = (None, ws)"
  by (simp add: focusFolder_def)

lemma focusFolder_from_undefined:
  "currentFolder ws = Undefined \<Longrightarrow>
   focusFolder F ws = fireEvent F focus (ws\<lparr>currentFolder := Defined F\<rparr>)"
  by (simp add: focusFolder_def)

lemma focusFolder_current:
  assumes "focusFolder F ws = (None, ws1)"
  shows "currentFolder ws1 = Defined F"
proof (cases "currentFolder ws = Defined F")
  case True
  with assms show ?thesis by (simp add: focusFolder_def)
next
  case False
  obtain r0 ws0 where u: "(case currentFolder ws of Undefined \<Rightarrow> (None, ws)
               | Defined cur \<Rightarrow> fireEvent cur unfocus ws) = (r0, ws0)"
    by (cases "(case currentFolder ws of Undefined \<Rightarrow> (None, ws)
               | Defined cur \<Rightarrow> fireEvent cur unfocus ws)")
  with assms False have r0: "r0 = None" and f: "fireEvent F focus (ws0\<lparr>currentFolder := Defined F\<rparr>) = (None, ws1)"
    by (auto simp: focusFolder_def split: option.splits)
  from fireEvent_frame[OF f] show ?thesis by simp
qed

lemma focusFolder_returned_trace:
  assumes cur: "currentFolder ws = Defined A"
    and diff: "F \<noteq> A"
    and run: "focusFolder F ws = (None, ws1)"
  shows "\<exists>k m. calls ws1 = calls ws @ map (\<lambda>i. Notified i A unfocus) [0..<k]
                                     @ map (\<lambda>i. Notified i F focus) [0..<m] \<and>
               m = length (observers ws)"
proof -
  obtain r0 ws0 where u: "fireEvent A unfocus ws = (r0, ws0)"
    by (cases "fireEvent A unfocus ws")
  from run cur diff u have r0: "r0 = None"
    and f: "fireEvent F focus (ws0\<lparr>currentFolder := Defined F\<rparr>) = (None, ws1)"
    by (auto simp: focusFolder_def split: option.splits)
  from fireEvent_trace[OF u] obtain k where
    k: "calls ws0 = calls ws @ map (\<lambda>i. Notified i A unfocus) [0..<k]" by blast
  from fireEvent_trace[OF f] fireEvent_frame[OF u] have
    "calls ws1 = calls ws0 @ map (\<lambda>i. Notified i F focus) [0..<length (observers ws)]"
    by auto
  with k have "calls ws1 = calls ws @ map (\<lambda>i. Notified i A unfocus) [0..<k]
                 @ map (\<lambda>i. Notified i F focus) [0..<length (observers ws)]"
    by simp
  then show ?thesis by blast
qed

text \<open>
  Claim C2. Requesting the value that is already the current one, in a determined state
  (a folder or the explicit null), does nothing. So a second \<open>focusFolder F\<close> right
  after a first one that returned changes nothing, and of the two calls only the first
  dispatched the focus event: once, to every observer (when \<open>F\<close> was not the current
  folder before). From the initial undetermined state every request, null included,
  dispatches the focus event and makes the requested value the current one.
\<close>

theorem focusFolder_idempotent:
  "(currentFolder ws = Defined F \<longrightarrow> focusFolder F ws = (None, ws)) \<and>
   (focusFolder F ws = (None, ws1) \<longrightarrow>
      focusFolder F ws1 = (None, ws1) \<and>
      (currentFolder ws \<noteq> Defined F \<longrightarrow>
         (\<exists>new. calls ws1 = calls ws @ new \<and>
            filter (isEvent focus) new =
              map (\<lambda>i. Notified i F focus) [0..<length (observers ws)]))) \<and>
   (currentFolder ws = Undefined \<and> focusFolder F ws = (r, ws') \<longrightarrow>
      (\<exists>m\<le>length (observers ws).
         calls ws' = calls ws @ map (\<lambda>i. Notified i F focus) [0..<m] \<and>
         (observers ws \<noteq> [] \<longrightarrow> 0 < m) \<and> (r = None \<longrightarrow> m = length (observers ws)) \<and>
         currentFolder ws' = Defined F))"
proof (intro conjI impI)
  assume "currentFolder ws = Defined F"
  then show "focusFolder F ws = (None, ws)" by (rule focusFolder_same)
next
  assume a: "focusFolder F ws = (None, ws1)"
  from focusFolder_current[OF a] show "focusFolder F ws1 = (None, ws1)"
    by (rule focusFolder_same)
next
  assume a: "focusFolder F ws = (None, ws1)" and ne: "currentFolder ws \<noteq> Defined F"
  show "\<exists>new. calls ws1 = calls ws @ new \<and>
            filter (isEvent focus) new =
              map (\<lambda>i. Notified i F focus) [0..<length (observers ws)]"
  proof (cases "currentFolder ws")
    case Undefined
    from a focusFolder_from_undefined[OF Undefined, of F]
    have f: "fireEvent F focus (ws\<lparr>currentFolder := Defined F\<rparr>) = (None, ws1)"
      by simp
    from fireEvent_trace[OF f] have
      "calls ws1 = calls ws @ map (\<lambda>i. Notified i F focus) [0..<length (observers ws)]"
      by auto
    then show ?thesis
      by (intro exI[of _ "map (\<lambda>i. Notified i F focus) [0..<length (observers ws)]"])
         (simp add: filter_isEvent_map_same)
  next
    case (Defined A)
    with ne have diff: "F \<noteq> A" by auto
    from focusFolder_returned_trace[OF Defined diff a]
    obtain k m where km:
      "calls ws1 = calls ws @ map (\<lambda>i. Notified i A unfocus) [0..<k]
                                @ map (\<lambda>i. Notified i F focus) [0..<m]"
      "m = length (observers ws)" by blast
    show ?thesis
      by (intro exI[of _ "map (\<lambda>i. Notified i A unfocus) [0..<k]
                                @ map (\<lambda>i. Notified i F focus) [0..<m]"])
         (simp add: km filter_isEvent_map_same filter_isEvent_map_other)
  qed
next
  assume a: "currentFolder ws = Undefined \<and> focusFolder F ws = (r, ws')"
  then have c: "currentFolder ws = Undefined" and rn: "focusFolder F ws = (r, ws')"
    by simp_all
  from rn focusFolder_from_undefined[OF c, of F]
  have f: "fireEvent F focus (ws\<lparr>currentFolder := Defined F\<rparr>) = (r, ws')"
    by simp
  from fireEvent_trace[OF f] obtain m where m: "m \<le> length (observers ws)"
    "calls ws' = calls ws @ map (\<lambda>i. Notified i F focus) [0..<m]"
    "r = None \<longrightarrow> m = length (observers ws)"
    "\<forall>err. r = Some err \<longrightarrow> 0 < m" by auto
  have "observers ws \<noteq> [] \<longrightarrow> 0 < m" using m(3,4) by (cases r) auto
  moreover from fireEvent_frame[OF f] have "currentFolder ws' = Defined F" by simp
  ultimately show "\<exists>m\<le>length (observers ws).
         calls ws' = calls ws @ map (\<lambda>i. Notified i F focus) [0..<m] \<and>
         (observers ws \<noteq> [] \<longrightarrow> 0 < m) \<and> (r = None \<longrightarrow> m = length (observers ws)) \<and>
         currentFolder ws' = Defined F"
    using m by blast
qed

text \<open>
  From the undetermined start: focusing \<open>folderA\<close> dispatches focus to both observers,
  the second request is a no-op; a request for null is dispatched as well.
\<close>

theorem focusFolder_idempotent_witness:
  "currentFolder startWs = Undefined \<and>
   focusFolder (Some folderA) startWs =
     (None, startWs\<lparr>currentFolder := Defined (Some folderA), world := 2,
          calls := [Notified 0 (Some folderA) focus, Notified 1 (Some folderA) focus]\<rparr>) \<and>
   focusFolder (Some folderA)
     (startWs\<lparr>currentFolder := Defined (Some folderA), world := 2,
          calls := [Notified 0 (Some folderA) focus, Notified 1 (Some folderA) focus]\<rparr>) =
     (None, startWs\<lparr>currentFolder := Defined (Some folderA), world := 2,
          calls := [Notified 0 (Some folderA) focus, Notified 1 (Some folderA) focus]\<rparr>) \<and>
   focusFolder None startWs =
     (None, startWs\<lparr>currentFolder := Defined None, world := 2,
          calls := [Notified 0 None focus, Notified 1 None focus]\<rparr>)"
proof -
  let ?W = "startWs\<lparr>currentFolder := Defined (Some folderA), world := 2,
          calls := [Notified 0 (Some folderA) focus, Notified 1 (Some folderA) focus]\<rparr>"
  have cur: "currentFolder startWs = Undefined"
    by (simp add: startWs_def)
  have run: "focusFolder (Some folderA) startWs = (None, ?W)"
    by (simp add: focusFolder_def fireEvent_def startWs_def numbered_def quiet_def upt_rec)
  have null: "focusFolder None startWs =
     (None, startWs\<lparr>currentFolder := Defined None, world := 2,
          calls := [Notified 0 None focus, Notified 1 None focus]\<rparr>)"
    by (simp add: focusFolder_def fireEvent_def startWs_def numbered_def quiet_def upt_rec)
  from focusFolder_idempotent[of startWs "Some folderA" ?W None ?W] run
  have "focusFolder (Some folderA) ?W = (None, ?W)"
    by blast
  with cur run null show ?thesis
    by blast
qed

section \<open>Properties of the package search\<close>

lemma searchParents_stop: "searchParents h w w pp = Some pp"
  by (subst searchParents.simps) simp

lemma searchParents_step:
  "cur \<noteq> w \<Longrightarrow> searchParents h w cur pp =
     searchParents h w (dirname h cur)
       (if isValidWorkspaceFolder h (dirname h cur) then Some (dirname h cur) else pp)"
  by (subst searchParents.simps) simp

lemma upt_from_one: "[1..<Suc (Suc k)] = 1 # map Suc [1..<Suc k]"
  by (simp add: upt_conv_Cons map_Suc_upt del: upt_Suc)

lemma searchParents_chain:
  "(dirname h ^^ k) cur = w \<Longrightarrow> \<forall>j<k. (dirname h ^^ j) cur \<noteq> w \<Longrightarrow>
   searchParents h w cur pp =
     Some (if filter (isValidWorkspaceFolder h) (map (\<lambda>j. (dirname h ^^ j) cur) [1..<Suc k]) = []
           then pp
           else Some (last (filter (isValidWorkspaceFolder h)
                              (map (\<lambda>j. (dirname h ^^ j) cur) [1..<Suc k]))))"
proof (induction k arbitrary: cur pp)
  case 0
  then show ?case by (simp add: searchParents_stop)
next
  case (Suc k)
  from Suc.prems(2) have ne: "cur \<noteq> w" by force
  have r: "(dirname h ^^ k) (dirname h cur) = w"
    using Suc.prems(1) by (simp add: funpow_swap1)
  have f: "\<forall>j<k. (dirname h ^^ j) (dirname h cur) \<noteq> w"
  proof (intro allI impI)
    fix j assume "j < k"
    then have "Suc j < Suc k" by simp
    with Suc.prems(2) have "(dirname h ^^ Suc j) cur \<noteq> w" by blast
    then show "(dirname h ^^ j) (dirname h cur) \<noteq> w" by (simp add: funpow_swap1)
  qed
  have m: "map (\<lambda>j. (dirname h ^^ j) cur) [1..<Suc (Suc k)] =
           dirname h cur # map (\<lambda>j. (dirname h ^^ j) (dirname h cur)) [1..<Suc k]"
  proof -
    have "map (\<lambda>j. (dirname h ^^ j) cur) [1..<Suc (Suc k)] =
          map (\<lambda>j. (dirname h ^^ j) cur) (1 # map Suc [1..<Suc k])"
      by (simp only: upt_from_one)
    also have "\<dots> = (dirname h ^^ 1) cur # map (\<lambda>j. (dirname h ^^ Suc j) cur) [1..<Suc k]"
      by (simp only: list.map map_map comp_def)
    also have "\<dots> = dirname h cur # map (\<lambda>j. (dirname h ^^ j) (dirname h cur)) [1..<Suc k]"
      by (simp add: funpow_swap1 del: upt_Suc)
    finally show ?thesis .
  qed
  show ?case
    unfolding searchParents_step[OF ne] Suc.IH[OF r f] m by simp
qed

lemma parentChain_split:
  "parentChain h d k = d # map (\<lambda>j. (dirname h ^^ j) d) [1..<Suc k]"
proof -
  have "[0..<Suc k] = 0 # [1..<Suc k]" by (simp add: upt_conv_Cons del: upt_Suc)
  then show ?thesis by (simp add: parentChain_def del: upt_Suc)
qed

text \<open>
  Claim C4. For a file that lies in no loaded folder, whose workspace root is \<open>wsf\<close>,
  the search walks upward from the file's containing directory to the workspace root
  (the chain of \<open>k\<close> parent steps that ends at the root and does not meet it before)
  and returns the outermost directory of the chain that is a valid package folder, the
  last valid one on the way up; when no directory of the chain is valid the result is
  undefined. The walk ends: the result is \<open>Some\<close>.
\<close>

theorem getPackageFolder_outermost:
  assumes nf: "findLoaded h url ws = None"
    and root: "getWorkspaceFolder h (fsPath url) = Some wsf"
    and reach: "last (parentChain h (dirname h (fsPath url)) k) = wfUri wsf"
    and first: "wfUri wsf \<notin> set (butlast (parentChain h (dirname h (fsPath url)) k))"
    and named: "[] \<notin> set (parentChain h (dirname h (fsPath url)) k)"
  shows "getPackageFolder h url ws =
     Some (if filter (isValidWorkspaceFolder h) (parentChain h (dirname h (fsPath url)) k) = []
           then None
           else Some (Unloaded (Uri_file
                  (last (filter (isValidWorkspaceFolder h)
                           (parentChain h (dirname h (fsPath url)) k))))))"
proof -
  let ?d = "dirname h (fsPath url)"
  let ?V = "isValidWorkspaceFolder h"
  let ?rest = "map (\<lambda>j. (dirname h ^^ j) ?d) [1..<Suc k]"
  have snoc: "parentChain h ?d k = map (\<lambda>j. (dirname h ^^ j) ?d) [0..<k] @ [(dirname h ^^ k) ?d]"
    by (simp add: parentChain_def)
  have r: "(dirname h ^^ k) ?d = wfUri wsf"
    using reach unfolding snoc by simp
  have f: "\<forall>j<k. (dirname h ^^ j) ?d \<noteq> wfUri wsf"
    using first unfolding snoc by (force simp: image_iff)
  have s: "searchParents h (wfUri wsf) ?d (if ?V ?d then Some ?d else None) =
     Some (if filter ?V (parentChain h ?d k) = [] then None
           else Some (last (filter ?V (parentChain h ?d k))))"
    unfolding searchParents_chain[OF r f] parentChain_split by simp
  have ne: "filter ?V (parentChain h ?d k) \<noteq> [] \<Longrightarrow> last (filter ?V (parentChain h ?d k)) \<noteq> []"
  proof -
    assume a: "filter ?V (parentChain h ?d k) \<noteq> []"
    then have "last (filter ?V (parentChain h ?d k)) \<in> set (filter ?V (parentChain h ?d k))"
      by (rule last_in_set)
    with named show ?thesis by auto
  qed
  show ?thesis
    using ne by (simp add: getPackageFolder_def searchPackage_def nf root s)
qed

text \<open>
  The nested fixture: \<^verbatim>\<open>/ws/outer\<close> and \<^verbatim>\<open>/ws/outer/inner\<close> both hold a manifest, the
  file is \<^verbatim>\<open>/ws/outer/inner/main.swift\<close>; the outer directory is returned.
\<close>

theorem getPackageFolder_outermost_witness:
  "findLoaded nestedHost innerFile startWs = None \<and>
   getWorkspaceFolder nestedHost (fsPath innerFile) = Some rootWs \<and>
   parentChain nestedHost (dirname nestedHost (fsPath innerFile)) 2 =
     [''/ws/outer/inner'', ''/ws/outer'', ''/ws''] \<and>
   filter (isValidWorkspaceFolder nestedHost) [''/ws/outer/inner'', ''/ws/outer'', ''/ws''] =
     [''/ws/outer/inner'', ''/ws/outer''] \<and>
   getPackageFolder nestedHost innerFile startWs = Some (Some (Unloaded (Uri_file ''/ws/outer'')))"
proof -
  have nf: "findLoaded nestedHost innerFile startWs = None"
    by code_simp
  have root: "getWorkspaceFolder nestedHost (fsPath innerFile) = Some rootWs"
    by code_simp
  have chain: "parentChain nestedHost (dirname nestedHost (fsPath innerFile)) 2 =
     [''/ws/outer/inner'', ''/ws/outer'', ''/ws'']"
    by code_simp
  have valid: "filter (isValidWorkspaceFolder nestedHost)
       [''/ws/outer/inner'', ''/ws/outer'', ''/ws''] = [''/ws/outer/inner'', ''/ws/outer'']"
    by code_simp
  have reach: "last (parentChain nestedHost (dirname nestedHost (fsPath innerFile)) 2) = wfUri rootWs"
    unfolding chain by (simp add: rootWs_def)
  have first: "wfUri rootWs \<notin> set (butlast (parentChain nestedHost (dirname nestedHost (fsPath innerFile)) 2))"
    unfolding chain by (simp add: rootWs_def)
  have named: "[] \<notin> set (parentChain nestedHost (dirname nestedHost (fsPath innerFile)) 2)"
    unfolding chain by simp
  from getPackageFolder_outermost[OF nf root reach first named]
  have "getPackageFolder nestedHost innerFile startWs = Some (Some (Unloaded (Uri_file ''/ws/outer'')))"
    unfolding chain valid by simp
  with nf root chain valid show ?thesis
    by blast
qed

text \<open>
  The walk has to reach the workspace path: the loop has a result only if some number
  of parent steps leads from the directory to it, and none otherwise.
\<close>

lemma searchParents_result_reaches:
  assumes "searchParents h w cur pp = Some y"
  shows "\<exists>k. (dirname h ^^ k) cur = w"
proof (rule searchParents.raw_induct[where P = "\<lambda>h w cur pp y. \<exists>k. (dirname h ^^ k) cur = w", OF _ assms])
  fix sp :: "host \<Rightarrow> string \<Rightarrow> string \<Rightarrow> string option \<Rightarrow> string option option"
    and h w cur pp y
  assume ih: "\<And>h w cur pp y. sp h w cur pp = Some y \<Longrightarrow> \<exists>k. (dirname h ^^ k) cur = w"
    and body: "(if cur \<noteq> w
      then sp h w (dirname h cur)
            (if isValidWorkspaceFolder h (dirname h cur) then Some (dirname h cur) else pp)
      else Some pp) = Some y"
  show "\<exists>k. (dirname h ^^ k) cur = w"
  proof (cases "cur = w")
    case True
    then have "(dirname h ^^ 0) cur = w" by simp
    then show ?thesis by blast
  next
    case False
    with body have "sp h w (dirname h cur)
       (if isValidWorkspaceFolder h (dirname h cur) then Some (dirname h cur) else pp) = Some y"
      by simp
    from ih[OF this] obtain k where "(dirname h ^^ k) (dirname h cur) = w" by blast
    then have "(dirname h ^^ Suc k) cur = w" by (simp add: funpow_swap1)
    then show ?thesis by blast
  qed
qed

lemma searchParents_never_ends:
  "\<forall>k. (dirname h ^^ k) cur \<noteq> w \<Longrightarrow> searchParents h w cur pp = None"
  using searchParents_result_reaches[of h w cur pp] by (cases "searchParents h w cur pp") auto

section \<open>Properties of the focus from the active file\<close>

text \<open>
  Claim C5, as stated: a null path, or a path that is not a local file, leads to
  \<open>focusFolder None\<close>, so the focus becomes the explicit null and the folder focused
  before receives unfocus. The source does not do that: with \<open>folderA\<close> focused, a
  null path and a path of the scheme \<^verbatim>\<open>output\<close> both leave \<open>folderA\<close> focused and
  dispatch nothing.
\<close>

theorem focusUri_null_keeps_focus:
  "currentFolder focusedA = Defined (Some folderA) \<and>
   focusUri nestedHost None focusedA = Some (None, focusedA\<lparr>currentDocument := None\<rparr>) \<and>
   currentFolder (focusedA\<lparr>currentDocument := None\<rparr>) = Defined (Some folderA) \<and>
   currentFolder (focusedA\<lparr>currentDocument := None\<rparr>) \<noteq> Defined None \<and>
   calls (focusedA\<lparr>currentDocument := None\<rparr>) = calls focusedA \<and>
   focusUri nestedHost (Some outputPane) focusedA =
     Some (None, focusedA\<lparr>currentDocument := Some outputPane\<rparr>) \<and>
   currentFolder (focusedA\<lparr>currentDocument := Some outputPane\<rparr>) \<noteq> Defined None \<and>
   calls (focusedA\<lparr>currentDocument := Some outputPane\<rparr>) = calls focusedA"
  by (simp add: focusUri_def focusedA_def outputPane_def)

text \<open>
  Claim C5, amended. When the active file changes to a null path or to a path that is
  not a local file, the path is recorded as the current document (null for no path) and
  nothing else happens: \<open>focusFolder\<close> is not invoked, the focus stays as it was and
  no event is dispatched.
\<close>

theorem focusUri_not_local_file:
  assumes "uri = None \<or> (\<exists>u. uri = Some u \<and> scheme u \<noteq> ''file'')"
  shows "focusUri h uri ws = Some (None, ws\<lparr>currentDocument := uri\<rparr>)"
  using assms by (auto simp: focusUri_def)

theorem focusUri_not_local_file_witness:
  "(None = (None :: Uri option) \<or> (\<exists>u. None = Some u \<and> scheme u \<noteq> ''file'')) \<and>
   focusUri nestedHost None focusedA = Some (None, focusedA\<lparr>currentDocument := None\<rparr>) \<and>
   (Some outputPane = None \<or> (\<exists>u. Some outputPane = Some u \<and> scheme u \<noteq> ''file'')) \<and>
   focusUri nestedHost (Some outputPane) focusedA =
     Some (None, focusedA\<lparr>currentDocument := Some outputPane\<rparr>)"
proof -
  have a: "None = (None :: Uri option) \<or> (\<exists>u. None = Some u \<and> scheme u \<noteq> ''file'')"
    by simp
  have b: "Some outputPane = None \<or> (\<exists>u. Some outputPane = Some u \<and> scheme u \<noteq> ''file'')"
    by (simp add: outputPane_def)
  from focusUri_not_local_file[OF a, of nestedHost focusedA]
       focusUri_not_local_file[OF b, of nestedHost focusedA] a b
  show ?thesis by blast
qed

section \<open>Properties of the folder sequence\<close>

lemma unfocus_step_frame:
  "(case currentFolder ws of Undefined \<Rightarrow> (None, ws)
    | Defined cur \<Rightarrow> fireEvent cur unfocus ws) = (r0, ws0) \<Longrightarrow>
   folders ws0 = folders ws \<and> pending ws0 = pending ws \<and> observers ws0 = observers ws \<and>
   currentFolder ws0 = currentFolder ws \<and> lastFocusUri ws0 = lastFocusUri ws \<and>
   initialisationFinished ws0 = initialisationFinished ws"
  by (cases "currentFolder ws") (auto dest: fireEvent_frame)

lemma focusFolder_folders: "folders (snd (focusFolder f ws)) = folders ws"
proof (cases "Defined f = currentFolder ws")
  case True
  then show ?thesis by (simp add: focusFolder_def)
next
  case False
  obtain r0 ws0 where u: "(case currentFolder ws of Undefined \<Rightarrow> (None, ws)
               | Defined cur \<Rightarrow> fireEvent cur unfocus ws) = (r0, ws0)"
    by (cases "(case currentFolder ws of Undefined \<Rightarrow> (None, ws)
               | Defined cur \<Rightarrow> fireEvent cur unfocus ws)")
  have f0: "folders ws0 = folders ws"
    using unfocus_step_frame[OF u] by simp
  show ?thesis
  proof (cases r0)
    case (Some err)
    with u False f0 show ?thesis by (simp add: focusFolder_def)
  next
    case None
    obtain r1 ws1 where f: "fireEvent f focus (ws0\<lparr>currentFolder := Defined f\<rparr>) = (r1, ws1)"
      by (cases "fireEvent f focus (ws0\<lparr>currentFolder := Defined f\<rparr>)")
    from fireEvent_frame[OF f] have "folders ws1 = folders ws0" by simp
    with None u False f0 f show ?thesis by (simp add: focusFolder_def)
  qed
qed

lemma unfocusCurrentFolder_folders: "folders (snd (unfocusCurrentFolder ws)) = folders ws"
proof -
  obtain r0 ws0 where u: "(case currentFolder ws of Undefined \<Rightarrow> (None, ws)
               | Defined cur \<Rightarrow> fireEvent cur unfocus ws) = (r0, ws0)"
    by (cases "(case currentFolder ws of Undefined \<Rightarrow> (None, ws)
               | Defined cur \<Rightarrow> fireEvent cur unfocus ws)")
  have f0: "folders ws0 = folders ws"
    using unfocus_step_frame[OF u] by simp
  with u show ?thesis by (cases r0) (simp_all add: unfocusCurrentFolder_def)
qed

lemma create_folder: "create h path wsf n = Inr fc \<Longrightarrow> folder fc = path \<and> workspaceFolder fc = wsf \<and> ident fc = n"
  by (auto simp: create_def split: sum.splits)

lemma find_None_notin: "find (\<lambda>c. folder c = path) fs = None \<Longrightarrow> path \<notin> set (map folder fs)"
  by (auto simp: find_None_iff)

lemma addPackageFolder_distinct:
  assumes "distinct (map folder (folders ws))"
  shows "distinct (map folder (folders (snd (addPackageFolder h path wsf ws))))"
proof (cases "find (\<lambda>c. folder c = path) (folders ws)")
  case (Some existing)
  with assms show ?thesis by (simp add: addPackageFolder_def)
next
  case None
  show ?thesis
  proof (cases "create h path wsf (nextIdent ws)")
    case (Inl err)
    with None assms show ?thesis by (simp add: addPackageFolder_def)
  next
    case (Inr fc)
    let ?ws1 = "ws\<lparr>folders := folders ws @ [fc], nextIdent := Suc (nextIdent ws)\<rparr>"
    obtain r ws2 where f: "fireEvent (Some fc) add ?ws1 = (r, ws2)"
      by (cases "fireEvent (Some fc) add ?ws1")
    from fireEvent_frame[OF f] have fs: "folders ws2 = folders ws @ [fc]" by simp
    from create_folder[OF Inr] have p: "folder fc = path" by simp
    from find_None_notin[OF None] p assms have "distinct (map folder (folders ws @ [fc]))"
      by simp
    with fs have d: "distinct (map folder (folders ws2))" by simp
    from None Inr f d show ?thesis
      by (cases r) (simp_all add: addPackageFolder_def)
  qed
qed

lemma withPackageFolder_distinct:
  assumes "distinct (map folder (folders ws))"
  shows "distinct (map folder (folders (snd (withPackageFolder h uri pf ws))))"
proof (cases pf)
  case None
  with assms show ?thesis by (simp add: withPackageFolder_def focusFolder_folders)
next
  case (Some p)
  show ?thesis
  proof (cases p)
    case (Loaded fc)
    have "folders (snd (focusFolder (Some fc) ws)) = folders ws" by (rule focusFolder_folders)
    with assms Some Loaded show ?thesis
      by (cases "focusFolder (Some fc) ws") (auto simp: withPackageFolder_def split: option.splits)
  next
    case (Unloaded dir)
    show ?thesis
    proof (cases "\<not> initialisationFinished ws")
      case True
      with assms Some Unloaded show ?thesis by (simp add: withPackageFolder_def)
    next
      case fin: False
      show ?thesis
      proof (cases "getWorkspaceFolder h (fsPath dir)")
        case None
        with assms Some Unloaded fin show ?thesis by (simp add: withPackageFolder_def)
      next
        case (Some wsf)
        obtain r1 ws1 where u: "unfocusCurrentFolder ws = (r1, ws1)"
          by (cases "unfocusCurrentFolder ws")
        have f1: "folders ws1 = folders ws" using unfocusCurrentFolder_folders[of ws] u by simp
        with assms have d1: "distinct (map folder (folders ws1))" by simp
        obtain r2 ws2 where a: "addPackageFolder h (fsPath dir) wsf ws1 = (r2, ws2)"
          by (cases "addPackageFolder h (fsPath dir) wsf ws1")
        from addPackageFolder_distinct[OF d1, of h "fsPath dir" wsf] a
        have d2: "distinct (map folder (folders ws2))" by simp
        show ?thesis
          using \<open>pf = Some p\<close> Unloaded fin Some u a d1 d2
          by (cases r1; cases r2) (simp_all add: withPackageFolder_def focusFolder_folders)
      qed
    qed
  qed
qed

lemma withPackageFolder_distinct_pair:
  "distinct (map folder (folders ws)) \<Longrightarrow> withPackageFolder h uri pf ws = (r, ws') \<Longrightarrow>
   distinct (map folder (folders ws'))"
  using withPackageFolder_distinct[of ws h uri pf] by simp

lemma startDispatch_frame:
  "startDispatch obs f e ws = (st, ws') \<Longrightarrow>
   folders ws' = folders ws \<and> pending ws' = pending ws \<and> observers ws' = observers ws \<and>
   currentFolder ws' = currentFolder ws \<and> lastFocusUri ws' = lastFocusUri ws \<and>
   initialisationFinished ws' = initialisationFinished ws"
proof (cases obs)
  case Nil
  then show "startDispatch obs f e ws = (st, ws') \<Longrightarrow> ?thesis" by simp
next
  case (Cons a rest)
  obtain i ob where a: "a = (i, ob)" by (cases a)
  assume "startDispatch obs f e ws = (st, ws')"
  with Cons a show ?thesis
    by (cases "ob f e (world ws)") (auto split: option.splits)
qed

lemma runTeardown_folders: "folders (runTeardown f obs ws) = folders ws"
proof -
  obtain st ws1 where s: "startDispatch obs (Some f) remove ws = (st, ws1)"
    by (cases "startDispatch obs (Some f) remove ws")
  from startDispatch_frame[OF s] s show ?thesis
    by (cases st) (simp_all add: runTeardown_def)
qed

lemma runFocusing_folders: "folders (runFocusing target obs ws) = folders ws"
proof -
  obtain st ws1 where s: "startDispatch obs target focus ws = (st, ws1)"
    by (cases "startDispatch obs target focus ws")
  from startDispatch_frame[OF s] s show ?thesis
    by (cases st) (simp_all add: runFocusing_def)
qed

lemma runUnfocusing_folders: "folders (runUnfocusing cur obs target ws) = folders ws"
proof -
  obtain st ws1 where s: "startDispatch obs cur unfocus ws = (st, ws1)"
    by (cases "startDispatch obs cur unfocus ws")
  from startDispatch_frame[OF s] s show ?thesis
    by (cases st) (simp_all add: runUnfocusing_def)
qed

lemma startFocusFolder_folders: "folders (startFocusFolder target ws) = folders ws"
  by (cases "currentFolder ws")
     (simp_all add: startFocusFolder_def runFocusing_folders runUnfocusing_folders)

lemma removeCallback_folders: "folders (removeCallback wsf f ws) = folders ws"
  by (simp add: removeCallback_def Let_def runTeardown_folders startFocusFolder_folders)

lemma fold_removeCallback_folders: "folders (fold (removeCallback wsf) fs ws) = folders ws"
  by (induction fs arbitrary: ws) (simp_all add: removeCallback_folders)

lemma removeWorkspaceFolder_folders:
  "folders (removeWorkspaceFolder wsf ws) = filter (\<lambda>f. workspaceFolder f \<noteq> wsf) (folders ws)"
  by (simp add: removeWorkspaceFolder_def Let_def fold_removeCallback_folders)

lemma continueJob_distinct:
  assumes "distinct (map folder (folders ws))" "continueJob h j ws = Some ws'"
  shows "distinct (map folder (folders ws'))"
proof (cases j)
  case (Teardown f obs)
  with assms show ?thesis by (auto simp: runTeardown_folders)
next
  case (Refocus cur obs target)
  with assms show ?thesis
    by (cases obs) (auto simp: runFocusing_folders runUnfocusing_folders)
next
  case (Focusing target obs)
  with assms show ?thesis by (auto simp: runFocusing_folders)
next
  case (ResolveFocus u found)
  with assms withPackageFolder_distinct[OF assms(1)] show ?thesis
    by (auto split: option.splits)
qed

lemma exec_distinct:
  assumes "distinct (map folder (folders ws))" "exec h op ws = Some ws'"
  shows "distinct (map folder (folders ws'))"
proof (cases op)
  case (Add path wsf)
  with assms addPackageFolder_distinct[OF assms(1)] show ?thesis by auto
next
  case (Remove wsf)
  with assms show ?thesis by (auto simp: removeWorkspaceFolder_folders distinct_map_filter)
next
  case (Activate uri)
  show ?thesis
  proof (cases uri)
    case None
    with assms Activate show ?thesis by (auto simp: focusUri_def)
  next
    case (Some u)
    let ?ws1 = "ws\<lparr>currentDocument := Some u\<rparr>"
    have d1: "distinct (map folder (folders ?ws1))" using assms(1) by simp
    from assms Activate Some show ?thesis
      by (auto simp: focusUri_def focusPackageUri_def split: if_splits option.splits
               dest: withPackageFolder_distinct_pair[OF d1])
  qed
next
  case (Focus f)
  with assms show ?thesis by (auto simp: focusFolder_folders)
next
  case Initialised
  with assms show ?thesis
    by (auto simp: initialisationComplete_def startFocusUri_def split: option.splits)
next
  case (Continue k)
  show ?thesis
  proof (cases "k < length (pending ws)")
    case True
    let ?ws1 = "ws\<lparr>pending := take k (pending ws) @ drop (Suc k) (pending ws)\<rparr>"
    have d1: "distinct (map folder (folders ?ws1))" using assms(1) by simp
    from assms(2) Continue True have "continueJob h (pending ws ! k) ?ws1 = Some ws'"
      by (simp add: resume_def)
    from continueJob_distinct[OF d1 this] show ?thesis .
  next
    case False
    with assms Continue show ?thesis by (simp add: resume_def)
  qed
qed

lemma run_distinct:
  "distinct (map folder (folders ws)) \<Longrightarrow> run h ops ws = Some ws' \<Longrightarrow>
   distinct (map folder (folders ws'))"
proof (induction ops arbitrary: ws)
  case Nil
  then show ?case by simp
next
  case (Cons op ops)
  then show ?case
    by (cases "exec h op ws") (auto dest: exec_distinct)
qed

lemma run_folderOps_total: "list_all folderOp ops \<Longrightarrow> run h ops ws \<noteq> None"
proof (induction ops arbitrary: ws)
  case Nil
  then show ?case by simp
next
  case (Cons op ops)
  then show ?case by (cases op) simp_all
qed

lemma addPackageFolder_existing:
  "find (\<lambda>c. folder c = path) (folders ws) = Some existing \<Longrightarrow>
   addPackageFolder h path wsf ws = (Inr existing, ws)"
  by (simp add: addPackageFolder_def)

text \<open>
  Claim C3. Starting from a folder sequence without two folders of the same root path,
  every sequence of operations that runs to its end leaves a sequence without two
  folders of the same root path, and a sequence of folder additions and removals always
  runs to its end. Adding a root path that is already registered returns the registered
  folder and leaves the context as it was: nothing is appended, no event is fired.
\<close>

theorem folders_unique_roots:
  assumes "distinct (map folder (folders ws))"
  shows "(\<forall>ws'. run h ops ws = Some ws' \<longrightarrow> distinct (map folder (folders ws'))) \<and>
         (list_all folderOp ops \<longrightarrow> run h ops ws \<noteq> None) \<and>
         (path \<in> set (map folder (folders ws)) \<longrightarrow>
            (\<exists>existing. existing \<in> set (folders ws) \<and> folder existing = path \<and>
               addPackageFolder h path wsf ws = (Inr existing, ws)))"
proof (intro conjI allI impI)
  fix ws' assume "run h ops ws = Some ws'"
  with assms show "distinct (map folder (folders ws'))" by (rule run_distinct)
next
  assume "list_all folderOp ops"
  then show "run h ops ws \<noteq> None" by (rule run_folderOps_total)
next
  assume "path \<in> set (map folder (folders ws))"
  then obtain existing where e: "find (\<lambda>c. folder c = path) (folders ws) = Some existing"
    by (cases "find (\<lambda>c. folder c = path) (folders ws)") (auto simp: find_None_iff)
  then have "existing \<in> set (folders ws) \<and> folder existing = path"
    by (auto simp: find_Some_iff)
  with addPackageFolder_existing[OF e] show "\<exists>existing. existing \<in> set (folders ws) \<and> folder existing = path \<and>
               addPackageFolder h path wsf ws = (Inr existing, ws)" by blast
qed

text \<open>
  Adding \<^verbatim>\<open>/ws/A\<close> (registered), \<^verbatim>\<open>/ws/C\<close> (new), removing another workspace root and
  adding \<^verbatim>\<open>/ws/C\<close> again leaves the three roots once each.
\<close>

theorem folders_unique_roots_witness:
  "distinct (map folder (folders startWs)) \<and>
   map_option (\<lambda>s. map folder (folders s)) (run nestedHost addRemoveOps startWs) =
     Some [''/ws/A'', ''/ws/B'', ''/ws/C''] \<and>
   list_all folderOp addRemoveOps \<and>
   ''/ws/A'' \<in> set (map folder (folders startWs)) \<and>
   addPackageFolder nestedHost ''/ws/A'' rootWs startWs = (Inr folderA, startWs)"
proof -
  have d: "distinct (map folder (folders startWs))"
    by code_simp
  have r: "map_option (\<lambda>s. map folder (folders s)) (run nestedHost addRemoveOps startWs) =
     Some [''/ws/A'', ''/ws/B'', ''/ws/C'']"
    by code_simp
  have l: "list_all folderOp addRemoveOps"
    by code_simp
  have m: "''/ws/A'' \<in> set (map folder (folders startWs))"
    by code_simp
  have a: "addPackageFolder nestedHost ''/ws/A'' rootWs startWs = (Inr folderA, startWs)"
    by (simp add: addPackageFolder_def startWs_def folderA_def)
  from folders_unique_roots[OF d, of nestedHost addRemoveOps "''/ws/A''" rootWs] d r l m a
  show ?thesis by blast
qed

section \<open>Properties of the deferred focus request\<close>

lemma notify_quiet:
  "\<forall>p\<in>set obs. \<forall>f e w. fst (snd p f e w) = None \<Longrightarrow> fst (notify obs f e ws) = None"
proof (induction obs arbitrary: ws)
  case Nil
  then show ?case by simp
next
  case (Cons a obs)
  obtain i ob where a: "a = (i, ob)" by (cases a)
  from Cons.prems a have q: "fst (ob f e (world ws)) = None" by auto
  obtain w' where w: "ob f e (world ws) = (None, w')"
    using q by (cases "ob f e (world ws)") auto
  from Cons.prems have "\<forall>p\<in>set obs. \<forall>f e w. fst (snd p f e w) = None" by simp
  from Cons.IH[OF this] a w show ?case by simp
qed

lemma fireEvent_quiet:
  assumes "\<forall>ob\<in>set (observers ws). \<forall>f e w. fst (ob f e w) = None"
  shows "\<exists>ws'. fireEvent f e ws = (None, ws')"
proof -
  have "\<forall>p\<in>set (numbered (observers ws)). \<forall>f e w. fst (snd p f e w) = None"
    using assms by (auto simp: numbered_def dest: set_zip_rightD)
  from notify_quiet[OF this, of f e ws] show ?thesis
    by (cases "notify (numbered (observers ws)) f e ws") (auto simp: fireEvent_def)
qed

lemma unfocusCurrentFolder_quiet:
  assumes q: "\<forall>ob\<in>set (observers ws). \<forall>f e w. fst (ob f e w) = None"
  shows "\<exists>ws1. unfocusCurrentFolder ws = (None, ws1) \<and> currentFolder ws1 = Undefined \<and>
           folders ws1 = folders ws \<and> observers ws1 = observers ws \<and>
           pending ws1 = pending ws \<and> lastFocusUri ws1 = lastFocusUri ws"
proof (cases "currentFolder ws")
  case Undefined
  then show ?thesis by (simp add: unfocusCurrentFolder_def)
next
  case (Defined cur)
  from fireEvent_quiet[OF q, of cur unfocus] obtain ws0 where f: "fireEvent cur unfocus ws = (None, ws0)"
    by blast
  from fireEvent_frame[OF f] Defined f show ?thesis
    by (simp add: unfocusCurrentFolder_def)
qed

lemma addPackageFolder_quiet:
  assumes q: "\<forall>ob\<in>set (observers ws). \<forall>f e w. fst (ob f e w) = None"
    and l: "loadFolder h path wsf = Inr raw"
  shows "\<exists>fc ws1. addPackageFolder h path wsf ws = (Inr fc, ws1) \<and> fc \<in> set (folders ws1) \<and>
           folder fc = path \<and> observers ws1 = observers ws \<and>
           currentFolder ws1 = currentFolder ws \<and> pending ws1 = pending ws \<and>
           lastFocusUri ws1 = lastFocusUri ws"
proof (cases "find (\<lambda>c. folder c = path) (folders ws)")
  case (Some existing)
  then have "existing \<in> set (folders ws) \<and> folder existing = path"
    by (auto simp: find_Some_iff)
  with Some show ?thesis by (simp add: addPackageFolder_def)
next
  case None
  from l obtain fc where c: "create h path wsf (nextIdent ws) = Inr fc" and p: "folder fc = path"
    by (simp add: create_def)
  let ?ws1 = "ws\<lparr>folders := folders ws @ [fc], nextIdent := Suc (nextIdent ws)\<rparr>"
  have q1: "\<forall>ob\<in>set (observers ?ws1). \<forall>f e w. fst (ob f e w) = None" using q by simp
  from fireEvent_quiet[OF q1, of "Some fc" add] obtain ws2 where
    f: "fireEvent (Some fc) add ?ws1 = (None, ws2)" by blast
  from fireEvent_frame[OF f] None c f p show ?thesis
    by (simp add: addPackageFolder_def)
qed

lemma focusFolder_quiet:
  assumes q: "\<forall>ob\<in>set (observers ws). \<forall>f e w. fst (ob f e w) = None"
  shows "\<exists>ws1. focusFolder F ws = (None, ws1) \<and> currentFolder ws1 = Defined F \<and>
           folders ws1 = folders ws \<and> observers ws1 = observers ws \<and>
           pending ws1 = pending ws \<and> lastFocusUri ws1 = lastFocusUri ws"
proof (cases "Defined F = currentFolder ws")
  case True
  then show ?thesis by (auto simp: focusFolder_def)
next
  case False
  obtain r0 ws0 where u: "(case currentFolder ws of Undefined \<Rightarrow> (None, ws)
               | Defined cur \<Rightarrow> fireEvent cur unfocus ws) = (r0, ws0)"
    by (cases "(case currentFolder ws of Undefined \<Rightarrow> (None, ws)
               | Defined cur \<Rightarrow> fireEvent cur unfocus ws)")
  have r0: "r0 = None"
  proof (cases "currentFolder ws")
    case Undefined
    with u show ?thesis by simp
  next
    case (Defined cur)
    from fireEvent_quiet[OF q, of cur unfocus] Defined u show ?thesis by auto
  qed
  note fr0 = unfocus_step_frame[OF u]
  let ?ws1 = "ws0\<lparr>currentFolder := Defined F\<rparr>"
  have q1: "\<forall>ob\<in>set (observers ?ws1). \<forall>f e w. fst (ob f e w) = None" using q fr0 by simp
  from fireEvent_quiet[OF q1, of F focus] obtain ws2 where
    f: "fireEvent F focus ?ws1 = (None, ws2)" by blast
  from fireEvent_frame[OF f] fr0 False u r0 f show ?thesis
    by (simp add: focusFolder_def)
qed

lemma withPackageFolder_registers:
  assumes fin: "initialisationFinished ws"
    and q: "\<forall>ob\<in>set (observers ws). \<forall>f e w. fst (ob f e w) = None"
    and root: "getWorkspaceFolder h (fsPath dir) = Some wsf"
    and l: "loadFolder h (fsPath dir) wsf = Inr raw"
  shows "\<exists>fc ws2. withPackageFolder h u (Some (Unloaded dir)) ws = (None, ws2) \<and>
           fc \<in> set (folders ws2) \<and> folder fc = fsPath dir \<and>
           currentFolder ws2 = Defined (Some fc) \<and> pending ws2 = pending ws \<and>
           lastFocusUri ws2 = lastFocusUri ws"
proof -
  from unfocusCurrentFolder_quiet[OF q] obtain ws1 where
    u: "unfocusCurrentFolder ws = (None, ws1)" and
    f1: "folders ws1 = folders ws" "observers ws1 = observers ws" "pending ws1 = pending ws"
        "lastFocusUri ws1 = lastFocusUri ws"
    by blast
  have q1: "\<forall>ob\<in>set (observers ws1). \<forall>f e w. fst (ob f e w) = None" using q f1 by simp
  from addPackageFolder_quiet[OF q1 l] obtain fc ws2 where
    a: "addPackageFolder h (fsPath dir) wsf ws1 = (Inr fc, ws2)" and
    f2: "fc \<in> set (folders ws2)" "folder fc = fsPath dir" "observers ws2 = observers ws1"
        "pending ws2 = pending ws1" "lastFocusUri ws2 = lastFocusUri ws1"
    by blast
  have q2: "\<forall>ob\<in>set (observers ws2). \<forall>f e w. fst (ob f e w) = None" using q1 f2 by simp
  from focusFolder_quiet[OF q2, of "Some fc"] obtain ws3 where
    f: "focusFolder (Some fc) ws2 = (None, ws3)" and
    f3: "currentFolder ws3 = Defined (Some fc)" "folders ws3 = folders ws2"
        "pending ws3 = pending ws2" "lastFocusUri ws3 = lastFocusUri ws2"
    by blast
  have "withPackageFolder h u (Some (Unloaded dir)) ws = (None, ws3)"
    using fin root u a f by (simp add: withPackageFolder_def)
  with f1 f2 f3 show ?thesis by auto
qed

lemma withPackageFolder_loaded:
  assumes q: "\<forall>ob\<in>set (observers ws). \<forall>f e w. fst (ob f e w) = None"
  shows "\<exists>ws2. withPackageFolder h u (Some (Loaded fc)) ws = (None, ws2) \<and>
           currentFolder ws2 = Defined (Some fc) \<and> folders ws2 = folders ws \<and>
           pending ws2 = pending ws \<and> lastFocusUri ws2 = None"
proof -
  from focusFolder_quiet[OF q, of "Some fc"] obtain ws1 where
    f: "focusFolder (Some fc) ws = (None, ws1)" and
    f1: "currentFolder ws1 = Defined (Some fc)" "folders ws1 = folders ws"
        "pending ws1 = pending ws"
    by blast
  from f f1 show ?thesis by (simp add: withPackageFolder_def)
qed

lemma initialisationComplete_job:
  assumes "lastFocusUri ws = Some u" "scheme u = ''file''"
  shows "initialisationComplete h ws =
           ws\<lparr>initialisationFinished := True, currentDocument := Some u,
              pending := pending ws @ [ResolveFocus u (findLoaded h u ws)],
              lastFocusUri := None\<rparr>"
  using assms by (simp add: initialisationComplete_def startFocusUri_def findLoaded_def)

lemma resume_last:
  "resume h (length (pending ws)) (ws\<lparr>pending := pending ws @ [j]\<rparr>) = continueJob h j ws"
  by (simp add: resume_def)

text \<open>
  Claim C7. While the initialisation is in progress, a focus request for a file whose
  package directory is not yet registered only stores the file in the single field
  \<open>lastFocusUri\<close>, replacing whatever request was stored before. When the
  initialisation ends, the field is cleared, and the stored request, if there is one,
  and only that one, is started again as a pending job. When that job runs (the
  observers returning normally, the workspace root and the package loading found), the
  package directory is a registered folder and that folder is the current one; when the
  file by then lies in a loaded folder, that folder is the current one.
\<close>

theorem deferred_focus_single:
  "(\<not> initialisationFinished ws \<and> getPackageFolder h u ws = Some (Some (Unloaded dir)) \<longrightarrow>
      focusPackageUri h u ws = Some (None, ws\<lparr>lastFocusUri := Some u\<rparr>)) \<and>
   initialisationFinished (initialisationComplete h ws) \<and>
   lastFocusUri (initialisationComplete h ws) = None \<and>
   (lastFocusUri ws = None \<longrightarrow>
      initialisationComplete h ws = ws\<lparr>initialisationFinished := True\<rparr>) \<and>
   (lastFocusUri ws = Some u \<and> scheme u = ''file'' \<longrightarrow>
      initialisationComplete h ws =
        ws\<lparr>initialisationFinished := True, currentDocument := Some u,
           pending := pending ws @ [ResolveFocus u (findLoaded h u ws)],
           lastFocusUri := None\<rparr>) \<and>
   (lastFocusUri ws = Some u \<and> scheme u = ''file'' \<and>
    (\<forall>ob\<in>set (observers ws). \<forall>f e w. fst (ob f e w) = None) \<and>
    getPackageFolder h u ws = Some (Some (Unloaded dir)) \<and>
    getWorkspaceFolder h (fsPath dir) = Some wsf \<and> loadFolder h (fsPath dir) wsf = Inr raw \<longrightarrow>
      (\<exists>fc ws2. resume h (length (pending ws)) (initialisationComplete h ws) = Some ws2 \<and>
         fc \<in> set (folders ws2) \<and> folder fc = fsPath dir \<and>
         currentFolder ws2 = Defined (Some fc) \<and> lastFocusUri ws2 = None \<and>
         pending ws2 = pending ws)) \<and>
   (lastFocusUri ws = Some u \<and> scheme u = ''file'' \<and>
    (\<forall>ob\<in>set (observers ws). \<forall>f e w. fst (ob f e w) = None) \<and>
    getPackageFolder h u ws = Some (Some (Loaded known)) \<longrightarrow>
      (\<exists>ws2. resume h (length (pending ws)) (initialisationComplete h ws) = Some ws2 \<and>
         currentFolder ws2 = Defined (Some known) \<and> lastFocusUri ws2 = None \<and>
         pending ws2 = pending ws))"
proof (intro conjI impI)
  assume "\<not> initialisationFinished ws \<and> getPackageFolder h u ws = Some (Some (Unloaded dir))"
  then show "focusPackageUri h u ws = Some (None, ws\<lparr>lastFocusUri := Some u\<rparr>)"
    by (simp add: focusPackageUri_def withPackageFolder_def)
next
  show "initialisationFinished (initialisationComplete h ws)"
    by (simp add: initialisationComplete_def startFocusUri_def split: option.splits)
next
  show "lastFocusUri (initialisationComplete h ws) = None"
    by (simp add: initialisationComplete_def startFocusUri_def split: option.splits)
next
  assume "lastFocusUri ws = None"
  then show "initialisationComplete h ws = ws\<lparr>initialisationFinished := True\<rparr>"
    by (simp add: initialisationComplete_def)
next
  assume "lastFocusUri ws = Some u \<and> scheme u = ''file''"
  then show "initialisationComplete h ws =
        ws\<lparr>initialisationFinished := True, currentDocument := Some u,
           pending := pending ws @ [ResolveFocus u (findLoaded h u ws)],
           lastFocusUri := None\<rparr>"
    by (simp add: initialisationComplete_job)
next
  assume a: "lastFocusUri ws = Some u \<and> scheme u = ''file'' \<and>
    (\<forall>ob\<in>set (observers ws). \<forall>f e w. fst (ob f e w) = None) \<and>
    getPackageFolder h u ws = Some (Some (Unloaded dir)) \<and>
    getWorkspaceFolder h (fsPath dir) = Some wsf \<and> loadFolder h (fsPath dir) wsf = Inr raw"
  let ?base = "ws\<lparr>initialisationFinished := True, currentDocument := Some u, lastFocusUri := None\<rparr>"
  from a have ic: "initialisationComplete h ws =
      ?base\<lparr>pending := pending ?base @ [ResolveFocus u (findLoaded h u ws)]\<rparr>"
    by (simp add: initialisationComplete_job)
  have r: "resume h (length (pending ws)) (initialisationComplete h ws) =
      continueJob h (ResolveFocus u (findLoaded h u ws)) ?base"
    unfolding ic using resume_last[of h ?base] by simp
  from a have sp: "searchPackage h u (findLoaded h u ws) = Some (Some (Unloaded dir))"
    by (simp add: getPackageFolder_def)
  have fin: "initialisationFinished ?base" by simp
  have q: "\<forall>ob\<in>set (observers ?base). \<forall>f e w. fst (ob f e w) = None" using a by simp
  from a have root: "getWorkspaceFolder h (fsPath dir) = Some wsf"
    and l: "loadFolder h (fsPath dir) wsf = Inr raw" by simp_all
  from withPackageFolder_registers[OF fin q root l, of u] obtain fc ws2 where
    w: "withPackageFolder h u (Some (Unloaded dir)) ?base = (None, ws2)"
       "fc \<in> set (folders ws2)" "folder fc = fsPath dir"
       "currentFolder ws2 = Defined (Some fc)" "pending ws2 = pending ?base"
       "lastFocusUri ws2 = lastFocusUri ?base"
    by blast
  from r sp w(1) have "resume h (length (pending ws)) (initialisationComplete h ws) = Some ws2"
    by simp
  with w show "\<exists>fc ws2. resume h (length (pending ws)) (initialisationComplete h ws) = Some ws2 \<and>
         fc \<in> set (folders ws2) \<and> folder fc = fsPath dir \<and>
         currentFolder ws2 = Defined (Some fc) \<and> lastFocusUri ws2 = None \<and>
         pending ws2 = pending ws"
    by auto
next
  assume a: "lastFocusUri ws = Some u \<and> scheme u = ''file'' \<and>
    (\<forall>ob\<in>set (observers ws). \<forall>f e w. fst (ob f e w) = None) \<and>
    getPackageFolder h u ws = Some (Some (Loaded known))"
  let ?base = "ws\<lparr>initialisationFinished := True, currentDocument := Some u, lastFocusUri := None\<rparr>"
  from a have ic: "initialisationComplete h ws =
      ?base\<lparr>pending := pending ?base @ [ResolveFocus u (findLoaded h u ws)]\<rparr>"
    by (simp add: initialisationComplete_job)
  have r: "resume h (length (pending ws)) (initialisationComplete h ws) =
      continueJob h (ResolveFocus u (findLoaded h u ws)) ?base"
    unfolding ic using resume_last[of h ?base] by simp
  from a have sp: "searchPackage h u (findLoaded h u ws) = Some (Some (Loaded known))"
    by (simp add: getPackageFolder_def)
  have q: "\<forall>ob\<in>set (observers ?base). \<forall>f e w. fst (ob f e w) = None" using a by simp
  from withPackageFolder_loaded[OF q, of h u known] obtain ws2 where
    w: "withPackageFolder h u (Some (Loaded known)) ?base = (None, ws2)"
       "currentFolder ws2 = Defined (Some known)" "pending ws2 = pending ?base"
       "lastFocusUri ws2 = None"
    by blast
  from r sp w(1) have "resume h (length (pending ws)) (initialisationComplete h ws) = Some ws2"
    by simp
  with w show "\<exists>ws2. resume h (length (pending ws)) (initialisationComplete h ws) = Some ws2 \<and>
         currentFolder ws2 = Defined (Some known) \<and> lastFocusUri ws2 = None \<and>
         pending ws2 = pending ws"
    by auto
qed

text \<open>
  Two requests during the initialisation, for \<open>innerFile\<close> and then for \<open>outerFile\<close>:
  only the second is remembered; at the end of the initialisation it is the one pending
  job, and running it registers \<^verbatim>\<open>/ws/outer\<close> and focuses it.
\<close>

theorem deferred_focus_single_witness:
  "\<not> initialisationFinished startWs \<and>
   getPackageFolder nestedHost innerFile startWs = Some (Some (Unloaded (Uri_file ''/ws/outer''))) \<and>
   focusPackageUri nestedHost innerFile startWs =
     Some (None, startWs\<lparr>lastFocusUri := Some innerFile\<rparr>) \<and>
   focusPackageUri nestedHost outerFile (startWs\<lparr>lastFocusUri := Some innerFile\<rparr>) =
     Some (None, startWs\<lparr>lastFocusUri := Some outerFile\<rparr>) \<and>
   pending (initialisationComplete nestedHost (startWs\<lparr>lastFocusUri := Some outerFile\<rparr>)) =
     [ResolveFocus outerFile None] \<and>
   (\<exists>fc ws2.
      resume nestedHost 0
        (initialisationComplete nestedHost (startWs\<lparr>lastFocusUri := Some outerFile\<rparr>)) = Some ws2 \<and>
      fc \<in> set (folders ws2) \<and> folder fc = ''/ws/outer'' \<and>
      currentFolder ws2 = Defined (Some fc) \<and> lastFocusUri ws2 = None \<and> pending ws2 = [])"
proof -
  let ?w1 = "startWs\<lparr>lastFocusUri := Some innerFile\<rparr>"
  let ?w2 = "startWs\<lparr>lastFocusUri := Some outerFile\<rparr>"
  let ?dir = "Uri_file ''/ws/outer''"
  have i0: "\<not> initialisationFinished startWs" "\<not> initialisationFinished ?w1"
    by (simp_all add: startWs_def)
  have g0: "getPackageFolder nestedHost innerFile startWs = Some (Some (Unloaded ?dir))"
    by code_simp
  have g1: "getPackageFolder nestedHost outerFile ?w1 = Some (Some (Unloaded ?dir))"
    by code_simp
  have g2: "getPackageFolder nestedHost outerFile ?w2 = Some (Some (Unloaded ?dir))"
    by code_simp
  have s0: "focusPackageUri nestedHost innerFile startWs = Some (None, ?w1)"
    using deferred_focus_single[of startWs nestedHost innerFile ?dir] i0 g0 by blast
  have s1: "focusPackageUri nestedHost outerFile ?w1 = Some (None, ?w2)"
    using deferred_focus_single[of ?w1 nestedHost outerFile ?dir] i0 g1 by simp
  have l: "lastFocusUri ?w2 = Some outerFile" "scheme outerFile = ''file''"
    by (simp_all add: outerFile_def Uri_file_def)
  have q: "\<forall>ob\<in>set (observers ?w2). \<forall>f e w. fst (ob f e w) = None"
    by (simp add: startWs_def quiet_def)
  have root: "getWorkspaceFolder nestedHost (fsPath ?dir) = Some rootWs"
    by code_simp
  have ld: "loadFolder nestedHost (fsPath ?dir) rootWs = Inr blankFolder"
    by (simp add: nestedHost_def)
  have fl: "findLoaded nestedHost outerFile ?w2 = None"
    by code_simp
  have p0: "pending ?w2 = []" "fsPath ?dir = ''/ws/outer''"
    by (simp_all add: startWs_def Uri_file_def)
  from deferred_focus_single[of ?w2 nestedHost outerFile ?dir rootWs blankFolder] l q g2 root ld
  have pd: "initialisationComplete nestedHost ?w2 =
        ?w2\<lparr>initialisationFinished := True, currentDocument := Some outerFile,
           pending := pending ?w2 @ [ResolveFocus outerFile (findLoaded nestedHost outerFile ?w2)],
           lastFocusUri := None\<rparr>"
    and rs: "\<exists>fc ws2. resume nestedHost (length (pending ?w2)) (initialisationComplete nestedHost ?w2) = Some ws2 \<and>
         fc \<in> set (folders ws2) \<and> folder fc = fsPath ?dir \<and>
         currentFolder ws2 = Defined (Some fc) \<and> lastFocusUri ws2 = None \<and>
         pending ws2 = pending ?w2"
    by blast+
  have pe: "pending (initialisationComplete nestedHost ?w2) = [ResolveFocus outerFile None]"
    unfolding pd fl by (simp add: startWs_def)
  from rs have "\<exists>fc ws2. resume nestedHost 0 (initialisationComplete nestedHost ?w2) = Some ws2 \<and>
         fc \<in> set (folders ws2) \<and> folder fc = ''/ws/outer'' \<and>
         currentFolder ws2 = Defined (Some fc) \<and> lastFocusUri ws2 = None \<and>
         pending ws2 = []"
    unfolding p0 by simp
  with i0 g0 s0 s1 pe show ?thesis by blast
qed

section \<open>Properties of the removal of a workspace folder\<close>

lemma startDispatch_effect:
  "startDispatch obs f e ws = (st, ws') \<Longrightarrow>
   calls ws' = calls ws @ (case obs of [] \<Rightarrow> [] | p # _ \<Rightarrow> [Notified (fst p) f e]) \<and>
   (case obs of [] \<Rightarrow> st = Completed
    | p # rest \<Rightarrow> st = (if fst (snd p f e (world ws)) = None then Awaiting rest else Threw))"
proof (cases obs)
  case Nil
  then show "startDispatch obs f e ws = (st, ws') \<Longrightarrow> ?thesis" by auto
next
  case (Cons a rest)
  obtain i ob where a: "a = (i, ob)" by (cases a)
  assume "startDispatch obs f e ws = (st, ws')"
  with Cons a show ?thesis
    by (cases "ob f e (world ws)") (auto split: option.splits)
qed

lemma runFocusing_teardown:
  "filter teardownEntry (calls (runFocusing target obs ws)) = filter teardownEntry (calls ws) \<and>
   filter isTeardown (pending (runFocusing target obs ws)) = filter isTeardown (pending ws) \<and>
   observers (runFocusing target obs ws) = observers ws \<and>
   folders (runFocusing target obs ws) = folders ws"
proof -
  obtain st ws1 where s: "startDispatch obs target focus ws = (st, ws1)"
    by (cases "startDispatch obs target focus ws")
  from startDispatch_effect[OF s] startDispatch_frame[OF s] s show ?thesis
    by (cases st; cases obs) (auto simp: runFocusing_def)
qed

lemma runUnfocusing_teardown:
  "filter teardownEntry (calls (runUnfocusing cur obs target ws)) = filter teardownEntry (calls ws) \<and>
   filter isTeardown (pending (runUnfocusing cur obs target ws)) = filter isTeardown (pending ws) \<and>
   observers (runUnfocusing cur obs target ws) = observers ws \<and>
   folders (runUnfocusing cur obs target ws) = folders ws"
proof -
  obtain st ws1 where s: "startDispatch obs cur unfocus ws = (st, ws1)"
    by (cases "startDispatch obs cur unfocus ws")
  from startDispatch_effect[OF s] startDispatch_frame[OF s] s show ?thesis
    by (cases st; cases obs) (auto simp: runUnfocusing_def)
qed

lemma startFocusFolder_teardown:
  "filter teardownEntry (calls (startFocusFolder target ws)) = filter teardownEntry (calls ws) \<and>
   filter isTeardown (pending (startFocusFolder target ws)) = filter isTeardown (pending ws) \<and>
   observers (startFocusFolder target ws) = observers ws \<and>
   folders (startFocusFolder target ws) = folders ws"
proof (cases "Defined target = currentFolder ws")
  case True
  then show ?thesis by (simp add: startFocusFolder_def)
next
  case False
  show ?thesis
  proof (cases "currentFolder ws")
    case Undefined
    with False runFocusing_teardown[of target "numbered (observers ws)" "ws\<lparr>currentFolder := Defined target\<rparr>"]
    show ?thesis by (simp add: startFocusFolder_def)
  next
    case (Defined cur)
    with False runUnfocusing_teardown[of cur "numbered (observers ws)" target ws]
    show ?thesis by (simp add: startFocusFolder_def)
  qed
qed

lemma runTeardown_calls:
  "filter teardownEntry (calls (runTeardown f obs ws)) =
     filter teardownEntry (calls ws) @
       (case obs of [] \<Rightarrow> [Disposed f] | p # _ \<Rightarrow> [Notified (fst p) (Some f) remove]) \<and>
   observers (runTeardown f obs ws) = observers ws"
proof -
  obtain st ws1 where s: "startDispatch obs (Some f) remove ws = (st, ws1)"
    by (cases "startDispatch obs (Some f) remove ws")
  from startDispatch_effect[OF s] startDispatch_frame[OF s] s show ?thesis
    by (cases st; cases obs) (auto simp: runTeardown_def split: if_splits)
qed

lemma runTeardown_pending:
  assumes "\<forall>p\<in>set obs. \<forall>f e w. fst (snd p f e w) = None"
  shows "filter isTeardown (pending (runTeardown f obs ws)) =
     filter isTeardown (pending ws) @
       (case obs of [] \<Rightarrow> [] | p # rest \<Rightarrow> [Teardown f rest])"
proof -
  obtain st ws1 where s: "startDispatch obs (Some f) remove ws = (st, ws1)"
    by (cases "startDispatch obs (Some f) remove ws")
  from startDispatch_effect[OF s] startDispatch_frame[OF s] s assms show ?thesis
    by (cases st; cases obs) (auto simp: runTeardown_def split: if_splits)
qed

lemma numbered_snoc: "numbered (xs @ [x]) = numbered xs @ [(length xs, x)]"
  by (simp add: numbered_def)

lemma rev_numbered:
  "obs \<noteq> [] \<Longrightarrow>
   rev (numbered obs) = (length obs - 1, last obs) # rev (numbered (butlast obs))"
proof -
  assume "obs \<noteq> []"
  then have "obs = butlast obs @ [last obs]" by simp
  then have "numbered obs = numbered (butlast obs) @ [(length (butlast obs), last obs)]"
    using numbered_snoc[of "butlast obs" "last obs"] by simp
  then show ?thesis by simp
qed

lemma set_numbered_quiet:
  "\<forall>ob\<in>set obs. \<forall>f e w. fst (ob f e w) = None \<Longrightarrow>
   \<forall>p\<in>set (rev (numbered obs)). \<forall>f e w. fst (snd p f e w) = None"
  by (auto simp: numbered_def dest: set_zip_rightD)

lemma removeCallback_calls:
  "filter teardownEntry (calls (removeCallback wsf f ws)) =
     filter teardownEntry (calls ws) @
       (if workspaceFolder f \<noteq> wsf then []
        else if observers ws = [] then [Disposed f]
        else [Notified (length (observers ws) - 1) (Some f) remove]) \<and>
   observers (removeCallback wsf f ws) = observers ws"
proof (cases "workspaceFolder f \<noteq> wsf")
  case True
  then show ?thesis by (simp add: removeCallback_def)
next
  case False
  let ?ws1 = "if currentFolder ws = Defined (Some f) then startFocusFolder None ws else ws"
  have s1: "filter teardownEntry (calls ?ws1) = filter teardownEntry (calls ws)"
           "observers ?ws1 = observers ws"
    using startFocusFolder_teardown[of None ws] by auto
  have r: "removeCallback wsf f ws = runTeardown f (rev (numbered (observers ws))) ?ws1"
    using False s1 by (simp add: removeCallback_def Let_def)
  show ?thesis
  proof (cases "observers ws = []")
    case True
    with runTeardown_calls[of f "rev (numbered (observers ws))" ?ws1] r s1 False
    show ?thesis by (simp add: numbered_def)
  next
    case ne: False
    from rev_numbered[OF ne] runTeardown_calls[of f "rev (numbered (observers ws))" ?ws1] r s1 False ne
    show ?thesis by simp
  qed
qed

lemma removeCallback_pending:
  assumes q: "\<forall>ob\<in>set (observers ws). \<forall>f e w. fst (ob f e w) = None"
  shows "filter isTeardown (pending (removeCallback wsf f ws)) =
     filter isTeardown (pending ws) @
       (if workspaceFolder f \<noteq> wsf \<or> observers ws = [] then []
        else [Teardown f (rev (numbered (butlast (observers ws))))])"
proof (cases "workspaceFolder f \<noteq> wsf")
  case True
  then show ?thesis by (simp add: removeCallback_def)
next
  case False
  let ?ws1 = "if currentFolder ws = Defined (Some f) then startFocusFolder None ws else ws"
  have s1: "filter isTeardown (pending ?ws1) = filter isTeardown (pending ws)"
           "observers ?ws1 = observers ws"
    using startFocusFolder_teardown[of None ws] by auto
  have r: "removeCallback wsf f ws = runTeardown f (rev (numbered (observers ws))) ?ws1"
    using False s1 by (simp add: removeCallback_def Let_def)
  note rt = runTeardown_pending[OF set_numbered_quiet[OF q], of f ?ws1]
  show ?thesis
  proof (cases "observers ws = []")
    case True
    with rt r s1 False show ?thesis by (simp add: numbered_def)
  next
    case ne: False
    from rev_numbered[OF ne] rt r s1 False ne show ?thesis by simp
  qed
qed

lemma fold_removeCallback_calls:
  "filter teardownEntry (calls (fold (removeCallback wsf) fs ws)) =
     filter teardownEntry (calls ws) @
       (if observers ws = [] then map Disposed (filter (\<lambda>f. workspaceFolder f = wsf) fs)
        else map (\<lambda>f. Notified (length (observers ws) - 1) (Some f) remove)
               (filter (\<lambda>f. workspaceFolder f = wsf) fs)) \<and>
   observers (fold (removeCallback wsf) fs ws) = observers ws"
proof (induction fs arbitrary: ws)
  case Nil
  then show ?case by simp
next
  case (Cons f fs)
  from Cons.IH[of "removeCallback wsf f ws"] removeCallback_calls[of wsf f ws]
  show ?case by auto
qed

lemma fold_removeCallback_pending:
  "\<forall>ob\<in>set (observers ws). \<forall>f e w. fst (ob f e w) = None \<Longrightarrow>
   filter isTeardown (pending (fold (removeCallback wsf) fs ws)) =
     filter isTeardown (pending ws) @
       (if observers ws = [] then []
        else map (\<lambda>f. Teardown f (rev (numbered (butlast (observers ws)))))
               (filter (\<lambda>f. workspaceFolder f = wsf) fs))"
proof (induction fs arbitrary: ws)
  case Nil
  then show ?case by simp
next
  case (Cons f fs)
  have o: "observers (removeCallback wsf f ws) = observers ws"
    using removeCallback_calls[of wsf f ws] by simp
  with Cons.prems have q1: "\<forall>ob\<in>set (observers (removeCallback wsf f ws)). \<forall>f e w. fst (ob f e w) = None"
    by simp
  from Cons.IH[OF q1] removeCallback_pending[OF Cons.prems, of wsf f] o
  show ?case by auto
qed

lemma fst_rev_numbered: "map fst (rev (numbered xs)) = rev [0..<length xs]"
  by (simp add: rev_map[symmetric] map_fst_numbered)

lemma continue_teardown_done:
  "continueJob h (Teardown f []) s = Some (s\<lparr>calls := calls s @ [Disposed f]\<rparr>)"
  by (simp add: runTeardown_def)

lemma continue_teardown_next:
  "fst (ob (Some f) remove (world s)) = None \<Longrightarrow>
   continueJob h (Teardown f ((i, ob) # rest)) s =
     Some (s\<lparr>world := snd (ob (Some f) remove (world s)),
             calls := calls s @ [Notified i (Some f) remove],
             pending := pending s @ [Teardown f rest]\<rparr>)"
  by (cases "ob (Some f) remove (world s)") (simp add: runTeardown_def)

text \<open>
  Claim C6, as stated: the remove event of the folders of a removed workspace root is
  fired in reverse registration order, the last-added folder first. The source goes
  through the folders in the order of the sequence: with \<open>folderA\<close> registered before
  \<open>folderB\<close>, every observer is notified of the removal of \<open>folderA\<close> first, and
  \<open>folderA\<close> is disposed first.
\<close>

theorem removeWorkspaceFolder_first_added_first:
  "folders startWs = [folderA, folderB] \<and>
   workspaceFolder folderA = rootWs \<and> workspaceFolder folderB = rootWs \<and>
   calls (removeWorkspaceFolder rootWs startWs) =
     [Notified 1 (Some folderA) remove, Notified 1 (Some folderB) remove] \<and>
   folders (removeWorkspaceFolder rootWs startWs) = [] \<and>
   map_option calls
     (run nestedHost [Remove rootWs, Continue 0, Continue 0, Continue 0, Continue 0] startWs) =
     Some [Notified 1 (Some folderA) remove, Notified 1 (Some folderB) remove,
           Notified 0 (Some folderA) remove, Notified 0 (Some folderB) remove,
           Disposed folderA, Disposed folderB]"
  by code_simp

text \<open>
  Claim C6, amended. When a workspace root is removed, the remove event of its folders
  is fired in registration order, the first-added folder first: the teardown of each
  starts by notifying the last-registered observer (or, with no observer at all, by
  disposing the folder), and the observers it has left, when the first one returned,
  are the earlier ones in reverse registration order, each notified when the teardown
  runs on, and the folder is disposed after the last. The folders of that root are
  deleted from the sequence and the others keep their order.
\<close>

theorem removeWorkspaceFolder_order:
  "folders (removeWorkspaceFolder wsf ws) = filter (\<lambda>f. workspaceFolder f \<noteq> wsf) (folders ws) \<and>
   filter teardownEntry (calls (removeWorkspaceFolder wsf ws)) =
     filter teardownEntry (calls ws) @
       (if observers ws = []
        then map Disposed (filter (\<lambda>f. workspaceFolder f = wsf) (folders ws))
        else map (\<lambda>f. Notified (length (observers ws) - 1) (Some f) remove)
               (filter (\<lambda>f. workspaceFolder f = wsf) (folders ws))) \<and>
   ((\<forall>ob\<in>set (observers ws). \<forall>f e w. fst (ob f e w) = None) \<longrightarrow>
      filter isTeardown (pending (removeWorkspaceFolder wsf ws)) =
        filter isTeardown (pending ws) @
          (if observers ws = [] then []
           else map (\<lambda>f. Teardown f (rev (numbered (butlast (observers ws)))))
                  (filter (\<lambda>f. workspaceFolder f = wsf) (folders ws)))) \<and>
   map fst (rev (numbered (butlast (observers ws)))) = rev [0..<length (observers ws) - 1] \<and>
   (fst (ob (Some f) remove (world s)) = None \<longrightarrow>
      continueJob h (Teardown f ((i, ob) # rest)) s =
        Some (s\<lparr>world := snd (ob (Some f) remove (world s)),
                calls := calls s @ [Notified i (Some f) remove],
                pending := pending s @ [Teardown f rest]\<rparr>)) \<and>
   continueJob h (Teardown f []) s = Some (s\<lparr>calls := calls s @ [Disposed f]\<rparr>)"
proof (intro conjI impI)
  show "folders (removeWorkspaceFolder wsf ws) = filter (\<lambda>f. workspaceFolder f \<noteq> wsf) (folders ws)"
    by (rule removeWorkspaceFolder_folders)
next
  show "filter teardownEntry (calls (removeWorkspaceFolder wsf ws)) =
     filter teardownEntry (calls ws) @
       (if observers ws = []
        then map Disposed (filter (\<lambda>f. workspaceFolder f = wsf) (folders ws))
        else map (\<lambda>f. Notified (length (observers ws) - 1) (Some f) remove)
               (filter (\<lambda>f. workspaceFolder f = wsf) (folders ws)))"
    using fold_removeCallback_calls[of wsf "folders ws" ws]
    by (simp add: removeWorkspaceFolder_def Let_def)
next
  assume "\<forall>ob\<in>set (observers ws). \<forall>f e w. fst (ob f e w) = None"
  from fold_removeCallback_pending[OF this, of wsf "folders ws"]
  show "filter isTeardown (pending (removeWorkspaceFolder wsf ws)) =
        filter isTeardown (pending ws) @
          (if observers ws = [] then []
           else map (\<lambda>f. Teardown f (rev (numbered (butlast (observers ws)))))
                  (filter (\<lambda>f. workspaceFolder f = wsf) (folders ws)))"
    by (simp add: removeWorkspaceFolder_def Let_def)
next
  show "map fst (rev (numbered (butlast (observers ws)))) = rev [0..<length (observers ws) - 1]"
    by (simp add: fst_rev_numbered)
next
  assume "fst (ob (Some f) remove (world s)) = None"
  then show "continueJob h (Teardown f ((i, ob) # rest)) s =
        Some (s\<lparr>world := snd (ob (Some f) remove (world s)),
                calls := calls s @ [Notified i (Some f) remove],
                pending := pending s @ [Teardown f rest]\<rparr>)"
    by (rule continue_teardown_next)
next
  show "continueJob h (Teardown f []) s = Some (s\<lparr>calls := calls s @ [Disposed f]\<rparr>)"
    by (rule continue_teardown_done)
qed

text \<open>
  Removing \<^verbatim>\<open>/ws\<close> while \<open>folderA\<close> is focused: the teardowns start with observer 1 for
  \<open>folderA\<close>, then for \<open>folderB\<close>, each leaving observer 0 to be notified.
\<close>

theorem removeWorkspaceFolder_order_witness:
  "observers focusedA = [quiet, quiet] \<and> (\<forall>f e w. fst (quiet f e w) = None) \<and>
   folders (removeWorkspaceFolder rootWs focusedA) = [] \<and>
   filter teardownEntry (calls (removeWorkspaceFolder rootWs focusedA)) =
     [Notified 1 (Some folderA) remove, Notified 1 (Some folderB) remove] \<and>
   filter isTeardown (pending (removeWorkspaceFolder rootWs focusedA)) =
     [Teardown folderA [(0, quiet)], Teardown folderB [(0, quiet)]] \<and>
   calls (removeWorkspaceFolder rootWs focusedA) =
     [Notified 0 (Some folderA) unfocus, Notified 1 (Some folderA) remove,
      Notified 1 (Some folderB) remove]"
proof -
  have q: "\<forall>ob\<in>set (observers focusedA). \<forall>f e w. fst (ob f e w) = None"
    by (simp add: focusedA_def startWs_def quiet_def)
  have e: "filter (\<lambda>f. workspaceFolder f \<noteq> rootWs) (folders focusedA) = []"
     "filter (\<lambda>f. workspaceFolder f = rootWs) (folders focusedA) = [folderA, folderB]"
     "observers focusedA = [quiet, quiet]" "calls focusedA = []" "pending focusedA = []"
    by (simp_all add: focusedA_def startWs_def folderA_def folderB_def)
  have n: "rev (numbered (butlast [quiet, quiet])) = [(0, quiet)]"
    by (simp add: numbered_def)
  have c: "calls (removeWorkspaceFolder rootWs focusedA) =
     [Notified 0 (Some folderA) unfocus, Notified 1 (Some folderA) remove,
      Notified 1 (Some folderB) remove]"
    by code_simp
  from removeWorkspaceFolder_order[where wsf=rootWs and ws=focusedA and ob=quiet and f=folderA
         and s=startWs and h=nestedHost and i=0 and rest="[]"] q
  have "folders (removeWorkspaceFolder rootWs focusedA) = [] \<and>
   filter teardownEntry (calls (removeWorkspaceFolder rootWs focusedA)) =
     [Notified 1 (Some folderA) remove, Notified 1 (Some folderB) remove] \<and>
   filter isTeardown (pending (removeWorkspaceFolder rootWs focusedA)) =
     [Teardown folderA [(0, quiet)], Teardown folderB [(0, quiet)]]"
    unfolding e n by simp
  with q c e(3) show ?thesis by simp
qed

section \<open>Properties of the build task lookup\<close>







text \<open>
  Outside that reading: a declared task without an execution object makes the read of
  its options throw, and the lookup ends with that error whatever else is declared.
\<close>

lemma getBuildAllTask_without_execution:
  "declaredFor folderA userDefault \<and> isDefaultBuild userDefault \<and>
   taskSource compoundTask = ''Workspace'' \<and>
   taskScope compoundTask = ScopeFolder (workspaceFolder folderA) \<and>
   execution compoundTask = None \<and>
   getBuildAllTask (fetchFrom [compoundTask, userDefault]) folderA = Inl TypeError \<and>
   buildTaskPrecedence (fetchFrom [compoundTask, userDefault]) folderA = Inr userDefault"
  by code_simp

section \<open>Properties of the provided tasks\<close>






end
